theory Spec2Isabelle
  imports Complex_Main "HOL-Library.Multiset" "HOL-Library.List_Lexorder" "HOL-Library.Char_ord"
begin

section \<open>Data model\<close>

text \<open>
  The engines work on Python dictionaries. A dictionary entry that the code reads with
  \<^verbatim>\<open>.get\<close> has three states: the key is absent, the key is present with \<^verbatim>\<open>None\<close>,
  or the key is present with a value.
\<close>

datatype 't field = Absent | Null | Val 't

text \<open>
  A request. \<^verbatim>\<open>originStopId\<close> and \<^verbatim>\<open>destStopId\<close> are read with \<^verbatim>\<open>req[...]\<close> and are
  required; \<^verbatim>\<open>requestId\<close> is read with \<^verbatim>\<open>req.get('requestId')\<close>. The type parameter is the
  type of a present pickup instant: inside the optimizer it is a \<^verbatim>\<open>datetime\<close>, counted
  here in whole seconds (the format \<^verbatim>\<open>%Y-%m-%d %H:%M:%S\<close> of the store has no fraction);
  in the remote route calculator it is the serialised text of the same instant.
\<close>

record 't request =
  requestId :: "string option"
  originStopId :: string
  destStopId :: string
  requestedPickupAt :: "'t field"

type_synonym instant = int

text \<open>\<^verbatim>\<open>req.get('requestedPickupAt')\<close>: \<^verbatim>\<open>None\<close> for an absent key and for a null value. A
  \<^verbatim>\<open>datetime\<close> is always truthy, so \<^verbatim>\<open>if not request_dt\<close> is the test for \<open>None\<close>.\<close>

definition pickup_of :: "'t request \<Rightarrow> 't option" where
  "pickup_of r = (case requestedPickupAt r of Val t \<Rightarrow> Some t | _ \<Rightarrow> None)"

section \<open>Feasibility checks of the assignment engine\<close>

text \<open>The loop of \<^verbatim>\<open>_violates_waiting_time\<close> over the vehicle's current requests;
  \<^verbatim>\<open>total_seconds()\<close> of a difference of whole-second instants is that difference.\<close>

fun waiting_loop :: "instant \<Rightarrow> instant request list \<Rightarrow> int \<Rightarrow> bool" where
  "waiting_loop request_dt [] max_wait_minutes = False"
| "waiting_loop request_dt (existing # rest) max_wait_minutes =
     (case pickup_of existing of
        None \<Rightarrow> waiting_loop request_dt rest max_wait_minutes
      | Some existing_dt \<Rightarrow>
          if \<bar>request_dt - existing_dt\<bar> > max_wait_minutes * 60 then True
          else waiting_loop request_dt rest max_wait_minutes)"

definition violates_waiting_time :: "instant request \<Rightarrow> instant request list \<Rightarrow> int \<Rightarrow> bool" where
  "violates_waiting_time request current_requests max_wait_minutes =
     (case pickup_of request of
        None \<Rightarrow> False
      | Some request_dt \<Rightarrow> waiting_loop request_dt current_requests max_wait_minutes)"

definition violates_travel_duration :: "instant request \<Rightarrow> instant request list \<Rightarrow> int \<Rightarrow> bool" where
  "violates_travel_duration request current_requests max_travel_minutes =
     (if current_requests = [] then False
      else
        let all_requests = current_requests @ [request];
            total_stops = int (length all_requests) * 2;
            estimated_duration = total_stops * 3
        in estimated_duration > max_travel_minutes)"

section \<open>Stops, vehicles and the cost model\<close>

text \<open>
  The stop store, as the table lookups see it: an item per stop identifier, or none, with
  optional \<^verbatim>\<open>stop_lat\<close> and \<^verbatim>\<open>stop_lon\<close> attributes. A coordinate is the pair
  \<^verbatim>\<open>[longitude, latitude]\<close>. Python floats are idealised as real numbers.
\<close>

record stop_item =
  stop_lat :: "real option"
  stop_lon :: "real option"

type_synonym stops_table = "string \<Rightarrow> stop_item option"

type_synonym coords = "real \<times> real"

text \<open>\<^verbatim>\<open>DynamicRouteOptimizer.get_stop_coords\<close>: a missing item and missing attributes read
  as 0, and the pair (0, 0) is reported as \<^verbatim>\<open>None\<close>. A failed lookup is caught and reported
  as \<^verbatim>\<open>None\<close> too, which is the answer for a missing item.\<close>

definition get_stop_coords :: "stops_table \<Rightarrow> string \<Rightarrow> coords option" where
  "get_stop_coords tbl stop_id =
     (let lat = (case tbl stop_id of None \<Rightarrow> 0
                 | Some item \<Rightarrow> (case stop_lat item of None \<Rightarrow> 0 | Some x \<Rightarrow> x));
          lon = (case tbl stop_id of None \<Rightarrow> 0
                 | Some item \<Rightarrow> (case stop_lon item of None \<Rightarrow> 0 | Some x \<Rightarrow> x))
      in if lat = 0 \<and> lon = 0 then None else Some (lon, lat))"

text \<open>A vehicle: \<^verbatim>\<open>vehicleId\<close> is required, position and capacity are read with
  \<^verbatim>\<open>.get\<close> and a default. A capacity is a number of requests.\<close>

record vehicle =
  vehicleId :: string
  longitude :: "real option"
  latitude :: "real option"
  capacity :: "nat option"

text \<open>\<^verbatim>\<open>vehicle.get('capacity', 20)\<close>\<close>

definition capacity_of :: "vehicle \<Rightarrow> nat" where
  "capacity_of v = (case capacity v of None \<Rightarrow> 20 | Some c \<Rightarrow> c)"

definition calculate_distance :: "coords \<Rightarrow> coords \<Rightarrow> real" where
  "calculate_distance pos1 pos2 = sqrt ((fst pos1 - fst pos2)\<^sup>2 + (snd pos1 - snd pos2)\<^sup>2)"

text \<open>\<^verbatim>\<open>_calculate_route_efficiency_penalty\<close>. The source looks the candidate's two stops
  up again; its only caller has checked that both resolve and holds their coordinates,
  which are passed here.\<close>

definition calculate_route_efficiency_penalty ::
  "stops_table \<Rightarrow> coords \<Rightarrow> coords \<Rightarrow> 't request list \<Rightarrow> real" where
  "calculate_route_efficiency_penalty tbl origin dest current_requests =
     (if current_requests = [] then 0
      else
        let existing_coords =
              concat (map (\<lambda>req.
                 (case get_stop_coords tbl (originStopId req) of None \<Rightarrow> [] | Some c \<Rightarrow> [c]) @
                 (case get_stop_coords tbl (destStopId req) of None \<Rightarrow> [] | Some c \<Rightarrow> [c]))
               current_requests)
        in if existing_coords = [] then 0
           else
             let min_lon = Min (set (map fst existing_coords));
                 max_lon = Max (set (map fst existing_coords));
                 min_lat = Min (set (map snd existing_coords));
                 max_lat = Max (set (map snd existing_coords));
                 p1 = (if fst origin < min_lon \<or> fst origin > max_lon
                          \<or> snd origin < min_lat \<or> snd origin > max_lat then 0.3 else 0);
                 p2 = (if fst dest < min_lon \<or> fst dest > max_lon
                          \<or> snd dest < min_lat \<or> snd dest > max_lat then p1 + 0.3 else p1)
             in p2)"

definition calculate_time_clustering_bonus ::
  "instant request \<Rightarrow> instant request list \<Rightarrow> real" where
  "calculate_time_clustering_bonus request current_requests =
     (if current_requests = [] then 0
      else case pickup_of request of
        None \<Rightarrow> 0
      | Some request_dt \<Rightarrow>
          let time_diffs =
                concat (map (\<lambda>existing.
                   (case pickup_of existing of
                      None \<Rightarrow> []
                    | Some existing_dt \<Rightarrow> [real_of_int \<bar>request_dt - existing_dt\<bar> / 60]))
                 current_requests)
          in if time_diffs = [] then 0
             else
               let avg_time_diff = sum_list time_diffs / real (length time_diffs)
               in - max 0 ((10 - avg_time_diff) * 0.02))"

text \<open>The loop of \<^verbatim>\<open>_calculate_geo_clustering_bonus\<close>, with the running
  \<^verbatim>\<open>shared_stops_bonus\<close> as accumulator: three independent tests per assigned request.\<close>

fun geo_loop :: "string \<Rightarrow> string \<Rightarrow> 't request list \<Rightarrow> real \<Rightarrow> real" where
  "geo_loop request_origin request_dest [] shared_stops_bonus = shared_stops_bonus"
| "geo_loop request_origin request_dest (existing # rest) shared_stops_bonus =
     (let existing_origin = originStopId existing;
          existing_dest = destStopId existing;
          b1 = (if request_origin = existing_origin
                then shared_stops_bonus - 0.2 else shared_stops_bonus);
          b2 = (if request_dest = existing_dest then b1 - 0.2 else b1);
          b3 = (if request_origin = existing_dest \<or> request_dest = existing_origin
                then b2 - 0.1 else b2)
      in geo_loop request_origin request_dest rest b3)"

definition calculate_geo_clustering_bonus :: "'t request \<Rightarrow> 't request list \<Rightarrow> real" where
  "calculate_geo_clustering_bonus request current_requests =
     (if current_requests = [] then 0
      else geo_loop (originStopId request) (destStopId request) current_requests 0)"

text \<open>\<^verbatim>\<open>_calculate_assignment_cost\<close>. The result \<open>None\<close> is \<^verbatim>\<open>float('inf')\<close>.\<close>

definition calculate_assignment_cost ::
  "stops_table \<Rightarrow> instant request \<Rightarrow> vehicle \<Rightarrow> instant request list \<Rightarrow> real option" where
  "calculate_assignment_cost tbl request vehicle current_requests =
     (case get_stop_coords tbl (originStopId request) of
        None \<Rightarrow> None
      | Some origin_coords \<Rightarrow>
         (case get_stop_coords tbl (destStopId request) of
            None \<Rightarrow> None
          | Some dest_coords \<Rightarrow>
              let vehicle_pos = (case longitude vehicle of None \<Rightarrow> 0 | Some x \<Rightarrow> x,
                                 case latitude vehicle of None \<Rightarrow> 0 | Some y \<Rightarrow> y);
                  distance_to_pickup = calculate_distance vehicle_pos origin_coords;
                  trip_distance = calculate_distance origin_coords dest_coords;
                  route_efficiency_penalty =
                    calculate_route_efficiency_penalty tbl origin_coords dest_coords current_requests;
                  utilization_bonus = - real (length current_requests) * 0.1;
                  time_clustering_bonus = calculate_time_clustering_bonus request current_requests;
                  geo_clustering_bonus = calculate_geo_clustering_bonus request current_requests
              in Some (distance_to_pickup * 2.0 + trip_distance * 0.5 + route_efficiency_penalty
                       + utilization_bonus + time_clustering_bonus + geo_clustering_bonus)))"

text \<open>The stop-sharing bonus as the specification words it: each of the three conditions
  contributes its flat amount once, however many assigned requests match.\<close>

definition stop_sharing_flat :: "'t request \<Rightarrow> 't request list \<Rightarrow> real" where
  "stop_sharing_flat request current_requests =
     (if list_ex (\<lambda>e. originStopId request = originStopId e) current_requests then - 0.2 else 0)
     + (if list_ex (\<lambda>e. destStopId request = destStopId e) current_requests then - 0.2 else 0)
     + (if list_ex (\<lambda>e. originStopId request = destStopId e \<or> destStopId request = originStopId e)
           current_requests then - 0.1 else 0)"


section \<open>The assignment engine\<close>

datatype error = TypeError | ValueError | OverflowError | OSError

text \<open>The dictionary \<^verbatim>\<open>assignments\<close>: vehicle identifier to the list of its requests.\<close>

type_synonym assignments = "string \<rightharpoonup> instant request list"

type_synonym cost_fn = "instant request \<Rightarrow> vehicle \<Rightarrow> instant request list \<Rightarrow> real option"

text \<open>\<^verbatim>\<open>assignments[vehicle_id]\<close>. Every identifier the engine looks up is a
  \<^verbatim>\<open>vehicleId\<close> of the fleet, and all of them are keys from the start, so the lookup
  never raises.\<close>

definition load :: "assignments \<Rightarrow> string \<Rightarrow> instant request list" where
  "load a k = (case a k of None \<Rightarrow> [] | Some rs \<Rightarrow> rs)"

text \<open>\<^verbatim>\<open>assignments[vehicle_id].append(request)\<close>\<close>

definition append_to :: "assignments \<Rightarrow> string \<Rightarrow> instant request \<Rightarrow> assignments" where
  "append_to a k r = a(k \<mapsto> load a k @ [r])"

text \<open>The sort key \<^verbatim>\<open>get_pickup_datetime\<close>; \<^verbatim>\<open>datetime.fromtimestamp(0)\<close> is instant 0.\<close>

definition get_pickup_datetime :: "instant request \<Rightarrow> instant" where
  "get_pickup_datetime req = (case pickup_of req of None \<Rightarrow> 0 | Some pickup_dt \<Rightarrow> pickup_dt)"

text \<open>\<^verbatim>\<open>cost < min_cost\<close> on floats, with \<open>None\<close> for \<^verbatim>\<open>float('inf')\<close>.\<close>

definition cost_less :: "real option \<Rightarrow> real option \<Rightarrow> bool" where
  "cost_less c m =
     (case c of None \<Rightarrow> False | Some x \<Rightarrow> (case m of None \<Rightarrow> True | Some y \<Rightarrow> x < y))"

text \<open>The inner loop over the fleet, with \<^verbatim>\<open>(best_vehicle, min_cost)\<close> as its state. The
  cost function is a parameter: the engine calls \<^verbatim>\<open>_calculate_assignment_cost\<close>, and what
  is proved below holds for every cost function, so also for the floating-point one.\<close>

fun choose_loop ::
  "cost_fn \<Rightarrow> int \<Rightarrow> int \<Rightarrow> assignments \<Rightarrow> instant request \<Rightarrow> vehicle list
     \<Rightarrow> vehicle option \<times> real option \<Rightarrow> vehicle option \<times> real option" where
  "choose_loop cost mw mt a request [] st = st"
| "choose_loop cost mw mt a request (vehicle # rest) (best_vehicle, min_cost) =
     (let vehicle_id = vehicleId vehicle;
          current_requests = load a vehicle_id
      in if length current_requests \<ge> capacity_of vehicle
           then choose_loop cost mw mt a request rest (best_vehicle, min_cost)
         else if violates_waiting_time request current_requests mw
           then choose_loop cost mw mt a request rest (best_vehicle, min_cost)
         else if violates_travel_duration request current_requests mt
           then choose_loop cost mw mt a request rest (best_vehicle, min_cost)
         else
           let c = cost request vehicle current_requests
           in if cost_less c min_cost
                then choose_loop cost mw mt a request rest (Some vehicle, c)
              else choose_loop cost mw mt a request rest (best_vehicle, min_cost))"

text \<open>\<^verbatim>\<open>min(vehicles, key=lambda v: len(assignments[v['vehicleId']]))\<close>: the first vehicle
  of least load; \<^verbatim>\<open>min\<close> of an empty sequence raises \<^verbatim>\<open>ValueError\<close> (here \<open>None\<close>).\<close>

fun least_loaded :: "assignments \<Rightarrow> vehicle list \<Rightarrow> vehicle option" where
  "least_loaded a [] = None"
| "least_loaded a (v # vs) =
     Some (fold (\<lambda>w best. if length (load a (vehicleId w)) < length (load a (vehicleId best))
                           then w else best) vs v)"

text \<open>What the body of the outer loop does with one request: skip it, append it to the
  best vehicle's list, append it to the least loaded vehicle's list in the fallback branch,
  or raise.\<close>

datatype decision = Skipped | Chosen string | Fallback string | Raised error

definition decide ::
  "cost_fn \<Rightarrow> stops_table \<Rightarrow> vehicle list \<Rightarrow> int \<Rightarrow> int \<Rightarrow> assignments \<Rightarrow> instant request
     \<Rightarrow> decision" where
  "decide cost tbl vehicles mw mt a request =
     (case get_stop_coords tbl (originStopId request) of
        None \<Rightarrow> Skipped
      | Some origin_coords \<Rightarrow>
         (case fst (choose_loop cost mw mt a request vehicles (None, None)) of
            Some best_vehicle \<Rightarrow> Chosen (vehicleId best_vehicle)
          | None \<Rightarrow>
             (case least_loaded a vehicles of
                None \<Rightarrow> Raised ValueError
              | Some v \<Rightarrow> Fallback (vehicleId v))))"

fun assign_loop ::
  "cost_fn \<Rightarrow> stops_table \<Rightarrow> vehicle list \<Rightarrow> int \<Rightarrow> int \<Rightarrow> instant request list
     \<Rightarrow> assignments \<Rightarrow> error + assignments" where
  "assign_loop cost tbl vehicles mw mt [] a = Inr a"
| "assign_loop cost tbl vehicles mw mt (request # rest) a =
     (case decide cost tbl vehicles mw mt a request of
        Skipped \<Rightarrow> assign_loop cost tbl vehicles mw mt rest a
      | Chosen k \<Rightarrow> assign_loop cost tbl vehicles mw mt rest (append_to a k request)
      | Fallback k \<Rightarrow> assign_loop cost tbl vehicles mw mt rest (append_to a k request)
      | Raised e \<Rightarrow> Inl e)"

text \<open>\<^verbatim>\<open>{vehicle['vehicleId']: [] for vehicle in vehicles}\<close>\<close>

definition empty_assignments :: "vehicle list \<Rightarrow> assignments" where
  "empty_assignments vehicles = map_of (map (\<lambda>v. (vehicleId v, [])) vehicles)"

text \<open>\<^verbatim>\<open>assign_requests_to_vehicles\<close>, for a given cost function; \<^verbatim>\<open>sorted\<close> is stable,
  and its keys here are all \<^verbatim>\<open>datetime\<close> values, so it does not raise.\<close>

definition assign_requests_to_vehicles ::
  "cost_fn \<Rightarrow> stops_table \<Rightarrow> instant request list \<Rightarrow> vehicle list \<Rightarrow> int \<Rightarrow> int
     \<Rightarrow> error + assignments" where
  "assign_requests_to_vehicles cost tbl requests vehicles max_wait_minutes max_travel_minutes =
     (let assignments = empty_assignments vehicles;
          sorted_requests = sort_key get_pickup_datetime requests
      in assign_loop cost tbl vehicles max_wait_minutes max_travel_minutes
           sorted_requests assignments)"

text \<open>The vehicle identifiers that received a request in the fallback branch during a run
  of the loop (a trace of the run, for stating what the engine guarantees).\<close>

fun fallback_ids ::
  "cost_fn \<Rightarrow> stops_table \<Rightarrow> vehicle list \<Rightarrow> int \<Rightarrow> int \<Rightarrow> instant request list
     \<Rightarrow> assignments \<Rightarrow> string list" where
  "fallback_ids cost tbl vehicles mw mt [] a = []"
| "fallback_ids cost tbl vehicles mw mt (request # rest) a =
     (case decide cost tbl vehicles mw mt a request of
        Skipped \<Rightarrow> fallback_ids cost tbl vehicles mw mt rest a
      | Chosen k \<Rightarrow> fallback_ids cost tbl vehicles mw mt rest (append_to a k request)
      | Fallback k \<Rightarrow> k # fallback_ids cost tbl vehicles mw mt rest (append_to a k request)
      | Raised e \<Rightarrow> [])"

text \<open>Feasibility of a vehicle for a request as the specification defines it: load below
  capacity, no waiting-time violation, no travel-duration violation.\<close>

definition feasible :: "int \<Rightarrow> int \<Rightarrow> assignments \<Rightarrow> instant request \<Rightarrow> vehicle \<Rightarrow> bool" where
  "feasible mw mt a request v =
     (length (load a (vehicleId v)) < capacity_of v
      \<and> \<not> violates_waiting_time request (load a (vehicleId v)) mw
      \<and> \<not> violates_travel_duration request (load a (vehicleId v)) mt)"

text \<open>The vehicle identifiers that received a request for which no vehicle of the fleet
  was feasible at decision time: force-assignment as the specification defines it.\<close>

fun infeasible_ids ::
  "cost_fn \<Rightarrow> stops_table \<Rightarrow> vehicle list \<Rightarrow> int \<Rightarrow> int \<Rightarrow> instant request list
     \<Rightarrow> assignments \<Rightarrow> string list" where
  "infeasible_ids cost tbl vehicles mw mt [] a = []"
| "infeasible_ids cost tbl vehicles mw mt (request # rest) a =
     (case decide cost tbl vehicles mw mt a request of
        Skipped \<Rightarrow> infeasible_ids cost tbl vehicles mw mt rest a
      | Chosen k \<Rightarrow>
          (if list_ex (feasible mw mt a request) vehicles then [] else [k])
            @ infeasible_ids cost tbl vehicles mw mt rest (append_to a k request)
      | Fallback k \<Rightarrow>
          (if list_ex (feasible mw mt a request) vehicles then [] else [k])
            @ infeasible_ids cost tbl vehicles mw mt rest (append_to a k request)
      | Raised e \<Rightarrow> [])"


text \<open>The union of all the vehicles' lists, counting repetitions.\<close>

definition all_assigned :: "assignments \<Rightarrow> instant request multiset" where
  "all_assigned a = (\<Sum>k\<in>dom a. mset (load a k))"

definition origin_resolves :: "stops_table \<Rightarrow> 't request \<Rightarrow> bool" where
  "origin_resolves tbl r = (get_stop_coords tbl (originStopId r) \<noteq> None)"

text \<open>The traces of a whole run, and the number of requests a run leaves on a vehicle
  (\<open>None\<close> when the run raised).\<close>

definition fallback_vehicles ::
  "cost_fn \<Rightarrow> stops_table \<Rightarrow> instant request list \<Rightarrow> vehicle list \<Rightarrow> int \<Rightarrow> int \<Rightarrow> string list" where
  "fallback_vehicles cost tbl requests vehicles mw mt =
     fallback_ids cost tbl vehicles mw mt (sort_key get_pickup_datetime requests)
       (empty_assignments vehicles)"

definition infeasible_vehicles ::
  "cost_fn \<Rightarrow> stops_table \<Rightarrow> instant request list \<Rightarrow> vehicle list \<Rightarrow> int \<Rightarrow> int \<Rightarrow> string list" where
  "infeasible_vehicles cost tbl requests vehicles mw mt =
     infeasible_ids cost tbl vehicles mw mt (sort_key get_pickup_datetime requests)
       (empty_assignments vehicles)"

definition assigned_count :: "error + assignments \<Rightarrow> string \<Rightarrow> nat option" where
  "assigned_count res k = (case res of Inl e \<Rightarrow> None | Inr a \<Rightarrow> Some (length (load a k)))"


section \<open>Reading the requests\<close>



















section \<open>The sequencing engine\<close>

text \<open>
  The keys that \<^verbatim>\<open>sorted(requests, key=lambda r: r.get('requestedPickupAt', ''))\<close> compares:
  \<^verbatim>\<open>None\<close>, a string (the default \<^verbatim>\<open>''\<close> of an absent key, or a serialised instant), or a
  \<^verbatim>\<open>datetime\<close>. Python orders two strings and two \<^verbatim>\<open>datetime\<close> values; every other
  comparison with \<^verbatim>\<open><\<close> raises \<^verbatim>\<open>TypeError\<close>, also \<^verbatim>\<open>None < None\<close>.
\<close>

datatype pykey = KNone | KStr string | KTime instant

fun py_lt :: "pykey \<Rightarrow> pykey \<Rightarrow> error + bool" where
  "py_lt (KStr a) (KStr b) = Inr (a < b)"
| "py_lt (KTime a) (KTime b) = Inr (a < b)"
| "py_lt _ _ = Inl TypeError"

text \<open>
  \<^verbatim>\<open>sorted\<close> is stable and uses only \<^verbatim>\<open><\<close> on the keys; an exception of a comparison
  leaves it. It is modelled as a stable insertion sort. A list of fewer than two elements
  is not compared at all; for a longer list every element is compared with another one, so
  the sort succeeds exactly when all keys are strings or all are \<^verbatim>\<open>datetime\<close> values
  (\<open>py_sorted_ok_iff\<close> below), whatever the order of the comparisons.
\<close>

fun py_insort :: "('a \<Rightarrow> pykey) \<Rightarrow> 'a \<Rightarrow> 'a list \<Rightarrow> error + 'a list" where
  "py_insort key x [] = Inr [x]"
| "py_insort key x (y # ys) =
     (case py_lt (key y) (key x) of
        Inl e \<Rightarrow> Inl e
      | Inr True \<Rightarrow> (case py_insort key x ys of Inl e \<Rightarrow> Inl e | Inr zs \<Rightarrow> Inr (y # zs))
      | Inr False \<Rightarrow> Inr (x # y # ys))"

fun py_sorted :: "('a \<Rightarrow> pykey) \<Rightarrow> 'a list \<Rightarrow> error + 'a list" where
  "py_sorted key [] = Inr []"
| "py_sorted key (x # xs) =
     (case py_sorted key xs of Inl e \<Rightarrow> Inl e | Inr ys \<Rightarrow> py_insort key x ys)"

text \<open>All keys are strings, or all are \<^verbatim>\<open>datetime\<close> values.\<close>

definition uniform :: "('a \<Rightarrow> pykey) \<Rightarrow> 'a list \<Rightarrow> bool" where
  "uniform key xs \<longleftrightarrow>
     (\<forall>x\<in>set xs. \<exists>s. key x = KStr s) \<or> (\<forall>x\<in>set xs. \<exists>t. key x = KTime t)"

text \<open>The sort key inside the optimizer, where a present instant is a \<^verbatim>\<open>datetime\<close>, and in
  the remote route calculator, where it is a string.\<close>

definition local_key :: "instant request \<Rightarrow> pykey" where
  "local_key r = (case requestedPickupAt r of Absent \<Rightarrow> KStr [] | Null \<Rightarrow> KNone | Val t \<Rightarrow> KTime t)"

definition remote_key :: "string request \<Rightarrow> pykey" where
  "remote_key r = (case requestedPickupAt r of Absent \<Rightarrow> KStr [] | Null \<Rightarrow> KNone | Val s \<Rightarrow> KStr s)"

datatype stop_type = Pickup | Dropoff

text \<open>A Stop Event, the dictionary with the keys \<^verbatim>\<open>type\<close>, \<^verbatim>\<open>requestId\<close>, \<^verbatim>\<open>stopId\<close>,
  \<^verbatim>\<open>coords\<close> and \<^verbatim>\<open>priority\<close>.\<close>

record stop_event =
  ev_type :: stop_type
  ev_requestId :: "string option"
  ev_stopId :: string
  ev_coords :: coords
  ev_priority :: nat

text \<open>The loop "add pickups in time order" over \<^verbatim>\<open>enumerate(sorted_requests)\<close>, with
  \<^verbatim>\<open>all_stops\<close> and \<^verbatim>\<open>pickup_order\<close> as its state. A coordinate list \<^verbatim>\<open>[lon, lat]\<close> is
  truthy, so \<^verbatim>\<open>if origin\<close> tests for \<^verbatim>\<open>None\<close>.\<close>

fun add_pickups ::
  "(string \<Rightarrow> coords option) \<Rightarrow> nat \<Rightarrow> 't request list
     \<Rightarrow> stop_event list \<times> (string option \<rightharpoonup> nat) \<Rightarrow> stop_event list \<times> (string option \<rightharpoonup> nat)" where
  "add_pickups stop_coords i [] st = st"
| "add_pickups stop_coords i (req # rest) (all_stops, pickup_order) =
     (case stop_coords (originStopId req) of
        Some origin \<Rightarrow>
          add_pickups stop_coords (Suc i) rest
            (all_stops @ [\<lparr>ev_type = Pickup, ev_requestId = requestId req,
                           ev_stopId = originStopId req, ev_coords = origin, ev_priority = i\<rparr>],
             pickup_order(requestId req \<mapsto> i))
      | None \<Rightarrow> add_pickups stop_coords (Suc i) rest (all_stops, pickup_order))"

text \<open>The loop "add dropoffs"; \<^verbatim>\<open>pickup_order.get(req.get('requestId'), 999) + 100\<close>.\<close>

fun add_dropoffs ::
  "(string \<Rightarrow> coords option) \<Rightarrow> (string option \<rightharpoonup> nat) \<Rightarrow> 't request list
     \<Rightarrow> stop_event list \<Rightarrow> stop_event list" where
  "add_dropoffs stop_coords pickup_order [] all_stops = all_stops"
| "add_dropoffs stop_coords pickup_order (req # rest) all_stops =
     (case stop_coords (destStopId req) of
        Some dest \<Rightarrow>
          add_dropoffs stop_coords pickup_order rest
            (all_stops @ [\<lparr>ev_type = Dropoff, ev_requestId = requestId req,
                           ev_stopId = destStopId req, ev_coords = dest,
                           ev_priority = (case pickup_order (requestId req) of
                                            None \<Rightarrow> 999 | Some i \<Rightarrow> i) + 100\<rparr>])
      | None \<Rightarrow> add_dropoffs stop_coords pickup_order rest all_stops)"

text \<open>The stop sequence before the cap: both loops, then the stable
  \<^verbatim>\<open>all_stops.sort(key=lambda x: x['priority'])\<close>. The text of these steps is the same in
  \<^verbatim>\<open>_calculate_route_locally\<close> and in \<^verbatim>\<open>RouteCalculator.optimize_route\<close>.\<close>

definition sequence_stops :: "(string \<Rightarrow> coords option) \<Rightarrow> 't request list \<Rightarrow> stop_event list" where
  "sequence_stops stop_coords sorted_requests =
     (let (all_stops, pickup_order) = add_pickups stop_coords 0 sorted_requests ([], Map.empty);
          all_stops = add_dropoffs stop_coords pickup_order sorted_requests all_stops
      in sort_key ev_priority all_stops)"

text \<open>The answer of the route-geometry provider: legs, distance, duration. A leg is kept
  as its line of coordinates.\<close>

type_synonym leg = "coords list"

text \<open>The provider call inside \<^verbatim>\<open>try\<close>, with departure, destination and via-points;
  \<open>None\<close> when the call, or reading its answer, raises an exception.\<close>

type_synonym provider = "coords \<Rightarrow> coords \<Rightarrow> coords list \<Rightarrow> (leg list \<times> real \<times> real) option"

text \<open>A Route Result, with the keys \<^verbatim>\<open>route\<close>, \<^verbatim>\<open>distance\<close>, \<^verbatim>\<open>duration\<close>,
  \<^verbatim>\<open>waypoints\<close> and \<^verbatim>\<open>sequence\<close>; the keys \<^verbatim>\<open>waypoints\<close> and \<^verbatim>\<open>sequence\<close> are absent (\<open>None\<close>) in
  some results of the remote calculator.\<close>

record route_result =
  res_route :: "leg list"
  res_distance :: real
  res_duration :: real
  res_waypoints :: "coords list option"
  res_sequence :: "stop_event list option"

text \<open>The last part of both functions, from the cap on: \<^verbatim>\<open>waypoints[:23]\<close> and
  \<^verbatim>\<open>all_stops[:23]\<close>, then the provider call. It is reached with at least two waypoints, so
  \<^verbatim>\<open>waypoints[0]\<close> and \<^verbatim>\<open>waypoints[-1]\<close> exist.\<close>

definition limit_and_route :: "provider \<Rightarrow> coords list \<Rightarrow> stop_event list \<Rightarrow> route_result" where
  "limit_and_route calculate_route waypoints all_stops =
     (let (waypoints, all_stops) =
            (if length waypoints > 23 then (take 23 waypoints, take 23 all_stops)
             else (waypoints, all_stops))
      in case calculate_route (hd waypoints) (last waypoints)
                (if length waypoints > 2 then butlast (tl waypoints) else []) of
           Some (legs, total_distance, total_seconds) \<Rightarrow>
             \<lparr>res_route = legs, res_distance = total_distance, res_duration = total_seconds,
              res_waypoints = Some waypoints, res_sequence = Some all_stops\<rparr>
         | None \<Rightarrow>
             \<lparr>res_route = [], res_distance = 0, res_duration = 0,
              res_waypoints = Some waypoints, res_sequence = Some all_stops\<rparr>)"

text \<open>\<^verbatim>\<open>DynamicRouteOptimizer._calculate_route_locally\<close>\<close>

definition calculate_route_locally ::
  "provider \<Rightarrow> stops_table \<Rightarrow> string \<Rightarrow> instant request list \<Rightarrow> error + route_result" where
  "calculate_route_locally calculate_route tbl vehicle_id requests =
     (if requests = [] then
        Inr \<lparr>res_route = [], res_distance = 0, res_duration = 0,
             res_waypoints = Some [], res_sequence = Some []\<rparr>
      else
        case py_sorted local_key requests of
          Inl e \<Rightarrow> Inl e
        | Inr sorted_requests \<Rightarrow>
            let all_stops = sequence_stops (get_stop_coords tbl) sorted_requests;
                waypoints = map ev_coords all_stops
            in if length waypoints < 2 then
                 Inr \<lparr>res_route = [], res_distance = 0, res_duration = 0,
                      res_waypoints = Some waypoints, res_sequence = Some all_stops\<rparr>
               else Inr (limit_and_route calculate_route waypoints all_stops))"

text \<open>\<^verbatim>\<open>RouteCalculator.get_stop_coords\<close>: the item's two attributes, \<^verbatim>\<open>None\<close> when the item
  or an attribute is missing (the \<^verbatim>\<open>KeyError\<close> is caught) or the lookup fails.\<close>

definition rc_get_stop_coords :: "stops_table \<Rightarrow> string \<Rightarrow> coords option" where
  "rc_get_stop_coords tbl stop_id =
     (case tbl stop_id of
        None \<Rightarrow> None
      | Some item \<Rightarrow>
          (case stop_lon item of
             None \<Rightarrow> None
           | Some lon \<Rightarrow> (case stop_lat item of None \<Rightarrow> None | Some lat \<Rightarrow> Some (lon, lat))))"

text \<open>\<^verbatim>\<open>RouteCalculator.optimize_route\<close>\<close>

definition optimize_route ::
  "provider \<Rightarrow> stops_table \<Rightarrow> string \<Rightarrow> string request list \<Rightarrow> error + route_result" where
  "optimize_route calculate_route tbl vehicle_id requests =
     (if requests = [] then
        Inr \<lparr>res_route = [], res_distance = 0, res_duration = 0,
             res_waypoints = None, res_sequence = None\<rparr>
      else
        case py_sorted remote_key requests of
          Inl e \<Rightarrow> Inl e
        | Inr sorted_requests \<Rightarrow>
            let all_stops = sequence_stops (rc_get_stop_coords tbl) sorted_requests;
                waypoints = map ev_coords all_stops
            in if length waypoints < 2 then
                 Inr \<lparr>res_route = [], res_distance = 0, res_duration = 0,
             res_waypoints = None, res_sequence = None\<rparr>
               else Inr (limit_and_route calculate_route waypoints all_stops))"

text \<open>The per-request precedence of a stop sequence: a pickup and a dropoff of the same
  request identifier stand in this order.\<close>

definition precedence :: "stop_event list \<Rightarrow> bool" where
  "precedence ss =
     (\<forall>p < length ss. \<forall>q < length ss.
        ev_type (ss ! p) = Pickup \<and> ev_type (ss ! q) = Dropoff
          \<and> ev_requestId (ss ! p) = ev_requestId (ss ! q) \<longrightarrow> p < q)"


text \<open>How the callers read the two lists of a Route Result:
  \<^verbatim>\<open>route_data.get('waypoints', [])\<close> and \<^verbatim>\<open>route_data.get('sequence', [])\<close>.\<close>

definition waypoints_of :: "route_result \<Rightarrow> coords list" where
  "waypoints_of route_data = (case res_waypoints route_data of None \<Rightarrow> [] | Some ws \<Rightarrow> ws)"

definition sequence_of :: "route_result \<Rightarrow> stop_event list" where
  "sequence_of route_data = (case res_sequence route_data of None \<Rightarrow> [] | Some ss \<Rightarrow> ss)"

text \<open>The waypoint cap of a result, for the stop sequence \<open>all_stops\<close> before the cap: at most
  23 waypoints, and when \<open>all_stops\<close> has more than 23 entries, both lists are their first 23
  entries.\<close>

definition capped :: "route_result \<Rightarrow> stop_event list \<Rightarrow> bool" where
  "capped res all_stops =
     (length (waypoints_of res) \<le> 23
      \<and> (23 < length all_stops \<longrightarrow>
           waypoints_of res = take 23 (map ev_coords all_stops)
           \<and> sequence_of res = take 23 all_stops
           \<and> length (waypoints_of res) = 23
           \<and> length (sequence_of res) = 23))"

text \<open>The waypoint list and the stop sequence of a result have the same length, and the
  waypoint at every index is the coordinate pair of the stop event at that index.\<close>

definition aligned :: "route_result \<Rightarrow> bool" where
  "aligned res =
     (length (waypoints_of res) = length (sequence_of res)
      \<and> (\<forall>i < length (sequence_of res). waypoints_of res ! i = ev_coords (sequence_of res ! i)))"


section \<open>A small fleet and stop table for concrete runs\<close>

definition ex_stops :: stops_table where
  "ex_stops = (\<lambda>s. if s = ''A'' then Some \<lparr>stop_lat = Some 1, stop_lon = Some 1\<rparr>
                    else if s = ''B'' then Some \<lparr>stop_lat = Some 2, stop_lon = Some 2\<rparr>
                    else None)"

definition ex_request :: "string \<Rightarrow> string \<Rightarrow> string \<Rightarrow> instant request" where
  "ex_request i orig dest =
     \<lparr>requestId = Some i, originStopId = orig, destStopId = dest, requestedPickupAt = Absent\<rparr>"

definition ex_v1 :: vehicle where
  "ex_v1 = \<lparr>vehicleId = ''v1'', longitude = None, latitude = None, capacity = Some 1\<rparr>"

definition ex_v2 :: vehicle where
  "ex_v2 = \<lparr>vehicleId = ''v2'', longitude = None, latitude = None, capacity = None\<rparr>"


text \<open>A provider that answers a call without via-points and fails on every other call.\<close>

definition ex_provider :: provider where
  "ex_provider departure destination via =
     (if via = [] then Some ([[departure, destination]], 1200, 300) else None)"

definition ex_remote_request :: "string \<Rightarrow> string \<Rightarrow> string \<Rightarrow> string \<Rightarrow> string request" where
  "ex_remote_request i orig dest pickup_at =
     \<lparr>requestId = Some i, originStopId = orig, destStopId = dest,
      requestedPickupAt = Val pickup_at\<rparr>"

definition ex_twelve :: "instant request list" where
  "ex_twelve = map (\<lambda>i. ex_request i ''A'' ''B'')
     [''r01'', ''r02'', ''r03'', ''r04'', ''r05'', ''r06'',
      ''r07'', ''r08'', ''r09'', ''r10'', ''r11'', ''r12'']"






section \<open>Properties of the feasibility checks\<close>

lemma waiting_loop_iff:
  "waiting_loop t current mw \<longleftrightarrow>
     (\<exists>e \<in> set current. \<exists>u. pickup_of e = Some u \<and> \<bar>t - u\<bar> > mw * 60)"
  by (induction current) (auto split: option.splits)

text \<open>
  Claim C4. The waiting-time check reports a violation exactly when the candidate has a
  known pickup instant and some already assigned request with a known instant is more than
  \<open>max_wait_minutes\<close> minutes away from it; the travel-duration check reports a violation
  exactly when the load is not empty and \<open>(assigned_count + 1) * 2 * 3\<close> exceeds
  \<open>max_travel_minutes\<close>.
\<close>

theorem C4_feasibility_checks:
  "(violates_waiting_time request current mw \<longleftrightarrow>
      (\<exists>t. pickup_of request = Some t \<and>
         (\<exists>e \<in> set current. \<exists>u. pickup_of e = Some u \<and> \<bar>t - u\<bar> > mw * 60)))
   \<and> (violates_travel_duration request current mt \<longleftrightarrow>
      (current \<noteq> [] \<and> (int (length current) + 1) * 2 * 3 > mt))"
proof -
  have w: "violates_waiting_time request current mw \<longleftrightarrow>
      (\<exists>t. pickup_of request = Some t \<and>
         (\<exists>e \<in> set current. \<exists>u. pickup_of e = Some u \<and> \<bar>t - u\<bar> > mw * 60))"
    by (simp add: violates_waiting_time_def waiting_loop_iff split: option.splits)
  have t: "violates_travel_duration request current mt \<longleftrightarrow>
      (current \<noteq> [] \<and> (int (length current) + 1) * 2 * 3 > mt)"
    by (auto simp: violates_travel_duration_def Let_def)
  from w t show ?thesis by blast
qed

section \<open>The stop-sharing bonus\<close>

lemma geo_loop_counts:
  "geo_loop ro rd current acc =
     acc - 0.2 * real (length (filter (\<lambda>e. ro = originStopId e) current))
         - 0.2 * real (length (filter (\<lambda>e. rd = destStopId e) current))
         - 0.1 * real (length (filter (\<lambda>e. ro = destStopId e \<or> rd = originStopId e) current))"
proof (induction current arbitrary: acc)
  case Nil
  show ?case by simp
next
  case (Cons e rest)
  show ?case
    unfolding geo_loop.simps Let_def Cons.IH
    by (simp add: add_divide_distrib diff_divide_distrib)
qed

text \<open>
  Claim C5, as the specification states it, fails: with two assigned requests that share the
  candidate's origin stop the bonus is \<open>-0.4\<close>, not the flat \<open>-0.2\<close>.
\<close>

theorem C5_flat_bonus_counterexample:
  "calculate_geo_clustering_bonus
     \<lparr>requestId = Some ''r3'', originStopId = ''A'', destStopId = ''B'',
      requestedPickupAt = (Absent :: instant field)\<rparr>
     [\<lparr>requestId = Some ''r1'', originStopId = ''A'', destStopId = ''C'', requestedPickupAt = Absent\<rparr>,
      \<lparr>requestId = Some ''r2'', originStopId = ''A'', destStopId = ''D'', requestedPickupAt = Absent\<rparr>]
     = - 0.4
   \<and> stop_sharing_flat
     \<lparr>requestId = Some ''r3'', originStopId = ''A'', destStopId = ''B'',
      requestedPickupAt = (Absent :: instant field)\<rparr>
     [\<lparr>requestId = Some ''r1'', originStopId = ''A'', destStopId = ''C'', requestedPickupAt = Absent\<rparr>,
      \<lparr>requestId = Some ''r2'', originStopId = ''A'', destStopId = ''D'', requestedPickupAt = Absent\<rparr>]
     = - 0.2"
  by (simp add: calculate_geo_clustering_bonus_def stop_sharing_flat_def)

text \<open>
  Claim C5, amended. The stop-sharing bonus is accumulated per assigned request: it is
  \<open>-0.2\<close> times the number of assigned requests with the candidate's origin, plus \<open>-0.2\<close>
  times the number with the candidate's destination, plus \<open>-0.1\<close> times the number whose
  destination is the candidate's origin or whose origin is the candidate's destination.
\<close>

theorem C5_bonus_accumulates:
  "calculate_geo_clustering_bonus request current =
     - 0.2 * real (length (filter (\<lambda>e. originStopId request = originStopId e) current))
     - 0.2 * real (length (filter (\<lambda>e. destStopId request = destStopId e) current))
     - 0.1 * real (length (filter (\<lambda>e. originStopId request = destStopId e
                                       \<or> destStopId request = originStopId e) current))"
  by (simp add: calculate_geo_clustering_bonus_def geo_loop_counts)

section \<open>Properties of the assignment engine\<close>

lemma choose_loop_member:
  "fst (choose_loop cost mw mt a request vs (b, m)) = Some v \<Longrightarrow> v \<in> set vs \<or> b = Some v"
  by (induction vs arbitrary: b m) (auto simp: Let_def split: if_splits)

lemma fold_least_member:
  "fold (\<lambda>w best. if length (load a (vehicleId w)) < length (load a (vehicleId best))
                           then w else best) vs v \<in> set (v # vs)"
  by (induction vs arbitrary: v) auto

lemma least_loaded_member: "least_loaded a vs = Some v \<Longrightarrow> v \<in> set vs"
  using fold_least_member by (cases vs) auto

lemma least_loaded_nonempty: "vs \<noteq> [] \<Longrightarrow> \<exists>v. least_loaded a vs = Some v"
  by (cases vs) auto

lemma decide_Chosen: "decide cost tbl vs mw mt a r = Chosen k \<Longrightarrow> k \<in> vehicleId ` set vs"
  by (auto simp: decide_def split: option.splits dest: choose_loop_member)

lemma decide_Fallback: "decide cost tbl vs mw mt a r = Fallback k \<Longrightarrow> k \<in> vehicleId ` set vs"
  by (auto simp: decide_def split: option.splits dest: least_loaded_member)

lemma decide_Raised: "vs \<noteq> [] \<Longrightarrow> decide cost tbl vs mw mt a r \<noteq> Raised e"
  using least_loaded_nonempty[of vs a]
  by (auto simp: decide_def split: option.splits)

lemma decide_Skipped:
  "decide cost tbl vs mw mt a r = Skipped \<longleftrightarrow> get_stop_coords tbl (originStopId r) = None"
  by (auto simp: decide_def split: option.splits)

lemma decide_placed:
  "decide cost tbl vs mw mt a r = Chosen k \<or> decide cost tbl vs mw mt a r = Fallback k
    \<Longrightarrow> get_stop_coords tbl (originStopId r) \<noteq> None"
  by (auto simp: decide_def split: option.splits)


lemma dom_append_to: "k \<in> dom a \<Longrightarrow> dom (append_to a k r) = dom a"
  by (auto simp: append_to_def)

lemma load_append_to:
  "load (append_to a k r) j = (if j = k then load a k @ [r] else load a j)"
  by (simp add: append_to_def load_def)

lemma all_assigned_append_to:
  assumes "finite (dom a)" "k \<in> dom a"
  shows "all_assigned (append_to a k r) = all_assigned a + {#r#}"
proof -
  have d: "dom (append_to a k r) = dom a" using assms(2) by (rule dom_append_to)
  have "all_assigned (append_to a k r)
        = mset (load (append_to a k r) k) + (\<Sum>j\<in>dom a - {k}. mset (load (append_to a k r) j))"
    unfolding all_assigned_def d using assms by (simp add: sum.remove)
  also have "\<dots> = mset (load a k) + {#r#} + (\<Sum>j\<in>dom a - {k}. mset (load a j))"
    by (simp add: load_append_to)
  also have "\<dots> = all_assigned a + {#r#}"
    unfolding all_assigned_def using assms by (simp add: sum.remove)
  finally show ?thesis .
qed

lemma assign_loop_coverage:
  assumes "vs \<noteq> []" "dom a = vehicleId ` set vs"
  shows "\<exists>a'. assign_loop cost tbl vs mw mt rs a = Inr a' \<and> dom a' = dom a
     \<and> all_assigned a' = all_assigned a + mset (filter (\<lambda>r. get_stop_coords tbl (originStopId r) \<noteq> None) rs)"
  using assms(2)
proof (induction rs arbitrary: a)
  case Nil
  show ?case by simp
next
  case (Cons r rs)
  have fin: "finite (dom a)" using Cons.prems by simp
  show ?case
  proof (cases "decide cost tbl vs mw mt a r")
    case Skipped
    then have "get_stop_coords tbl (originStopId r) = None" by (simp add: decide_Skipped)
    with Skipped Cons.IH[OF Cons.prems] show ?thesis by simp
  next
    case (Chosen k)
    then have k: "k \<in> dom a" using decide_Chosen Cons.prems by blast
    have res: "get_stop_coords tbl (originStopId r) \<noteq> None" using Chosen decide_placed by blast
    have d: "dom (append_to a k r) = vehicleId ` set vs" using k Cons.prems by (simp add: dom_append_to)
    from Cons.IH[OF d] Chosen res show ?thesis
      by (auto simp: dom_append_to[OF k] all_assigned_append_to[OF fin k])
  next
    case (Fallback k)
    then have k: "k \<in> dom a" using decide_Fallback Cons.prems by blast
    have res: "get_stop_coords tbl (originStopId r) \<noteq> None" using Fallback decide_placed by blast
    have d: "dom (append_to a k r) = vehicleId ` set vs" using k Cons.prems by (simp add: dom_append_to)
    from Cons.IH[OF d] Fallback res show ?thesis
      by (auto simp: dom_append_to[OF k] all_assigned_append_to[OF fin k])
  next
    case (Raised e)
    with decide_Raised[OF assms(1)] show ?thesis by blast
  qed
qed

lemma dom_empty_assignments: "dom (empty_assignments vs) = vehicleId ` set vs"
  by (auto simp: empty_assignments_def dom_map_of_conv_image_fst image_image)

lemma load_empty_assignments: "load (empty_assignments vs) k = []"
  by (auto simp: load_def empty_assignments_def split: option.splits dest: map_of_SomeD)

lemma all_assigned_empty: "all_assigned (empty_assignments vs) = {#}"
  by (simp add: all_assigned_def load_empty_assignments)


lemma in_load_in_all:
  assumes "finite (dom a)" "r \<in> set (load a k)"
  shows "r \<in># all_assigned a"
proof -
  have "k \<in> dom a" using assms(2) by (cases "a k") (auto simp: load_def)
  then have "mset (load a k) \<subseteq># all_assigned a"
    unfolding all_assigned_def using assms(1)
    by (metis (no_types, lifting) mset_subset_eq_add_left sum.remove)
  with assms(2) show ?thesis by (meson in_multiset_in_set mset_subset_eqD)
qed



lemma unique_holder:
  assumes fin: "finite (dom a)" and c: "count (all_assigned a) r = 1"
  shows "\<exists>!k. r \<in> set (load a k)"
proof -
  let ?f = "\<lambda>k. count (mset (load a k)) r"
  have s: "sum ?f (dom a) = 1"
    using c unfolding all_assigned_def count_sum .
  have "\<not> (\<forall>k\<in>dom a. ?f k = 0)"
  proof
    assume "\<forall>k\<in>dom a. ?f k = 0"
    then have "sum ?f (dom a) = 0" by (rule sum.neutral)
    with s show False by simp
  qed
  then obtain k where k: "k \<in> dom a" "?f k \<noteq> 0" by blast
  have split: "sum ?f (dom a) = ?f k + sum ?f (dom a - {k})"
    using fin k(1) by (rule sum.remove)
  have rest: "sum ?f (dom a - {k}) = 0"
    using s split k(2) by arith
  have fin': "finite (dom a - {k})" using fin by simp
  have zero: "\<forall>j\<in>dom a - {k}. ?f j = 0"
    using rest sum_eq_0_iff[OF fin', of ?f] by blast
  have others: "r \<notin> set (load a j)" if "j \<noteq> k" for j
  proof (cases "j \<in> dom a")
    case True
    with that zero have "?f j = 0" by blast
    then show ?thesis using count_mset_0_iff[of "load a j" r] by blast
  next
    case False
    then have "load a j = []" by (cases "a j") (auto simp: load_def)
    then show ?thesis by simp
  qed
  have here: "r \<in> set (load a k)"
  proof (rule ccontr)
    assume "r \<notin> set (load a k)"
    then have "?f k = 0" using count_mset_0_iff[of "load a k" r] by blast
    with k(2) show False by blast
  qed
  show ?thesis
  proof (rule ex1I[of _ k])
    show "r \<in> set (load a k)" by (rule here)
  next
    fix j assume j: "r \<in> set (load a j)"
    show "j = k"
    proof (rule ccontr)
      assume "j \<noteq> k"
      then have "r \<notin> set (load a j)" by (rule others)
      with j show False by simp
    qed
  qed
qed


text \<open>
  Claim C1. With a non-empty fleet \<^verbatim>\<open>assign_requests_to_vehicles\<close> returns a mapping whose
  keys are exactly the fleet's vehicle identifiers; the lists of all the vehicles together
  hold exactly the input requests whose origin stop resolves, each as often as the input
  has it; a request whose origin does not resolve is in no list; and a request with a
  resolving origin that the input has once is in the list of exactly one vehicle.
\<close>

theorem C1_total_coverage:
  assumes "vehicles \<noteq> []"
  shows "\<exists>a. assign_requests_to_vehicles cost tbl requests vehicles mw mt = Inr a
     \<and> dom a = set (map vehicleId vehicles)
     \<and> all_assigned a = mset (filter (origin_resolves tbl) requests)
     \<and> (\<forall>r. \<not> origin_resolves tbl r \<longrightarrow> (\<forall>k. r \<notin> set (load a k)))
     \<and> (\<forall>r. origin_resolves tbl r \<and> count (mset requests) r = 1 \<longrightarrow> (\<exists>!k. r \<in> set (load a k)))"
proof -
  let ?P = "\<lambda>r. get_stop_coords tbl (originStopId r) \<noteq> None"
  have P: "?P = origin_resolves tbl" by (rule ext) (simp add: origin_resolves_def)
  obtain a where run: "assign_loop cost tbl vehicles mw mt (sort_key get_pickup_datetime requests)
        (empty_assignments vehicles) = Inr a"
     and da: "dom a = dom (empty_assignments vehicles)"
     and aa: "all_assigned a = all_assigned (empty_assignments vehicles)
        + mset (filter ?P (sort_key get_pickup_datetime requests))"
    using assign_loop_coverage[OF assms dom_empty_assignments] by blast
  have "mset (filter ?P (sort_key get_pickup_datetime requests)) = mset (filter ?P requests)"
    by (simp only: mset_filter mset_sort)
  with aa have cov: "all_assigned a = mset (filter (origin_resolves tbl) requests)"
    by (simp only: all_assigned_empty P add_0)
  have d: "dom a = set (map vehicleId vehicles)" using da by (simp add: dom_empty_assignments)
  then have fin: "finite (dom a)" by simp
  have none: "\<forall>r. \<not> origin_resolves tbl r \<longrightarrow> (\<forall>k. r \<notin> set (load a k))"
  proof (intro allI impI notI)
    fix r k assume nr: "\<not> origin_resolves tbl r" and "r \<in> set (load a k)"
    then have "r \<in># all_assigned a" using in_load_in_all[OF fin] by blast
    with cov nr show False by simp
  qed
  have one: "\<forall>r. origin_resolves tbl r \<and> count (mset requests) r = 1 \<longrightarrow> (\<exists>!k. r \<in> set (load a k))"
  proof (intro allI impI)
    fix r assume "origin_resolves tbl r \<and> count (mset requests) r = 1"
    then have "count (all_assigned a) r = 1" using cov by simp
    with fin show "\<exists>!k. r \<in> set (load a k)" by (rule unique_holder)
  qed
  have res: "assign_requests_to_vehicles cost tbl requests vehicles mw mt = Inr a"
    using run by (simp add: assign_requests_to_vehicles_def)
  from res d cov none one show ?thesis by blast
qed

lemma choose_loop_Cons:
  "choose_loop cost mw mt a request (w # ws) (b, m) =
     (if feasible mw mt a request w \<and> cost_less (cost request w (load a (vehicleId w))) m
      then choose_loop cost mw mt a request ws (Some w, cost request w (load a (vehicleId w)))
      else choose_loop cost mw mt a request ws (b, m))"
  by (simp add: Let_def feasible_def not_le)

lemma choose_loop_feasible:
  "fst (choose_loop cost mw mt a request vs (b, m)) = Some v
    \<Longrightarrow> b = Some v \<or> (v \<in> set vs \<and> feasible mw mt a request v)"
proof (induction vs arbitrary: b m)
  case Nil
  then show ?case by simp
next
  case (Cons w ws)
  show ?case
  proof (cases "feasible mw mt a request w \<and> cost_less (cost request w (load a (vehicleId w))) m")
    case True
    with Cons.prems have
      "fst (choose_loop cost mw mt a request ws (Some w, cost request w (load a (vehicleId w)))) = Some v"
      by (simp add: choose_loop_Cons del: choose_loop.simps)
    from Cons.IH[OF this] True show ?thesis by auto
  next
    case False
    with Cons.prems have "fst (choose_loop cost mw mt a request ws (b, m)) = Some v"
      by (simp add: choose_loop_Cons del: choose_loop.simps)
    from Cons.IH[OF this] show ?thesis by auto
  qed
qed

lemma choose_loop_keeps:
  "b \<noteq> None \<Longrightarrow> fst (choose_loop cost mw mt a request vs (b, m)) \<noteq> None"
proof (induction vs arbitrary: b m)
  case Nil
  then show ?case by simp
next
  case (Cons w ws)
  then show ?case by (simp add: choose_loop_Cons del: choose_loop.simps)
qed

lemma choose_loop_None_iff:
  "fst (choose_loop cost mw mt a request vs (None, None)) = None \<longleftrightarrow>
     (\<forall>w \<in> set vs. \<not> feasible mw mt a request w \<or> cost request w (load a (vehicleId w)) = None)"
proof (induction vs)
  case Nil
  show ?case by simp
next
  case (Cons w ws)
  have less: "cost_less c None \<longleftrightarrow> c \<noteq> None" for c
    by (cases c) (simp_all add: cost_less_def)
  show ?case
  proof (cases "feasible mw mt a request w \<and> cost request w (load a (vehicleId w)) \<noteq> None")
    case True
    then have "choose_loop cost mw mt a request (w # ws) (None, None)
        = choose_loop cost mw mt a request ws (Some w, cost request w (load a (vehicleId w)))"
      by (simp add: choose_loop_Cons less del: choose_loop.simps)
    moreover have "fst (choose_loop cost mw mt a request ws
        (Some w, cost request w (load a (vehicleId w)))) \<noteq> None"
      by (rule choose_loop_keeps) simp
    ultimately show ?thesis using True by auto
  next
    case False
    then have "\<not> (feasible mw mt a request w
        \<and> cost_less (cost request w (load a (vehicleId w))) None)"
      by (simp add: less)
    then have "choose_loop cost mw mt a request (w # ws) (None, None)
        = choose_loop cost mw mt a request ws (None, None)"
      unfolding choose_loop_Cons by (rule if_not_P)
    with False Cons.IH show ?thesis by auto
  qed
qed

lemma decide_Chosen_feasible:
  assumes "decide cost tbl vs mw mt a r = Chosen k"
  shows "\<exists>b \<in> set vs. vehicleId b = k \<and> feasible mw mt a r b"
proof -
  from assms obtain b where b: "fst (choose_loop cost mw mt a r vs (None, None)) = Some b"
    and k: "k = vehicleId b"
    by (auto simp: decide_def split: option.splits)
  from choose_loop_feasible[OF b] k show ?thesis by auto
qed

lemma assign_loop_capacity:
  assumes "assign_loop cost tbl vs mw mt rs a = Inr a'"
    and "\<forall>w\<in>set vs. vehicleId w = vehicleId v \<longrightarrow> capacity_of w = capacity_of v"
    and "vehicleId v \<notin> set (fallback_ids cost tbl vs mw mt rs a)"
    and "length (load a (vehicleId v)) \<le> capacity_of v"
  shows "length (load a' (vehicleId v)) \<le> capacity_of v"
  using assms(1,3,4)
proof (induction rs arbitrary: a)
  case Nil
  then show ?case by simp
next
  case (Cons r rs)
  show ?case
  proof (cases "decide cost tbl vs mw mt a r")
    case Skipped
    with Cons show ?thesis by simp
  next
    case (Chosen k)
    from decide_Chosen_feasible[OF Chosen] obtain b where
      b: "b \<in> set vs" "vehicleId b = k" "feasible mw mt a r b" by blast
    have len: "length (load (append_to a k r) (vehicleId v)) \<le> capacity_of v"
    proof (cases "k = vehicleId v")
      case True
      with b assms(2) have "capacity_of b = capacity_of v" by blast
      with b True have "length (load a (vehicleId v)) < capacity_of v"
        by (simp add: feasible_def)
      with True show ?thesis by (simp add: load_append_to)
    next
      case False
      with Cons.prems(3) show ?thesis by (simp add: load_append_to)
    qed
    from Cons.prems(1,2) Chosen have
      "assign_loop cost tbl vs mw mt rs (append_to a k r) = Inr a'"
      "vehicleId v \<notin> set (fallback_ids cost tbl vs mw mt rs (append_to a k r))"
      by simp_all
    from Cons.IH[OF this len] show ?thesis .
  next
    case (Fallback k)
    with Cons.prems(2) have ne: "k \<noteq> vehicleId v" by auto
    with Cons.prems(3) have len: "length (load (append_to a k r) (vehicleId v)) \<le> capacity_of v"
      by (simp add: load_append_to)
    from Cons.prems(1,2) Fallback have
      "assign_loop cost tbl vs mw mt rs (append_to a k r) = Inr a'"
      "vehicleId v \<notin> set (fallback_ids cost tbl vs mw mt rs (append_to a k r))"
      by simp_all
    from Cons.IH[OF this len] show ?thesis .
  next
    case (Raised e)
    with Cons.prems(1) show ?thesis by simp
  qed
qed

text \<open>
  Claim C3, amended. In a fleet with distinct vehicle identifiers, a vehicle that received
  no request through the fallback branch of the engine ends with at most
  \<^verbatim>\<open>capacity\<close> requests (20 when the capacity is not given). The fallback branch is taken when
  no vehicle is both feasible and of finite cost (\<open>decide_Fallback_iff\<close> below), so also
  for a request whose destination stop does not resolve.
\<close>

theorem C3_capacity_unless_fallback:
  assumes "assigned_count (assign_requests_to_vehicles cost tbl requests vehicles mw mt)
             (vehicleId v) = Some n"
    and "v \<in> set vehicles"
    and "distinct (map vehicleId vehicles)"
    and "vehicleId v \<notin> set (fallback_vehicles cost tbl requests vehicles mw mt)"
  shows "n \<le> capacity_of v"
proof -
  from assms(1) obtain a where
    a: "assign_requests_to_vehicles cost tbl requests vehicles mw mt = Inr a"
    and n: "n = length (load a (vehicleId v))"
    by (auto simp: assigned_count_def split: sum.splits)
  have same: "\<forall>w\<in>set vehicles. vehicleId w = vehicleId v \<longrightarrow> capacity_of w = capacity_of v"
  proof (intro ballI impI)
    fix w assume "w \<in> set vehicles" "vehicleId w = vehicleId v"
    with assms(2,3) have "w = v" by (meson distinct_map inj_onD)
    then show "capacity_of w = capacity_of v" by simp
  qed
  have run: "assign_loop cost tbl vehicles mw mt (sort_key get_pickup_datetime requests)
      (empty_assignments vehicles) = Inr a"
    using a by (simp add: assign_requests_to_vehicles_def)
  have nf: "vehicleId v \<notin> set (fallback_ids cost tbl vehicles mw mt
      (sort_key get_pickup_datetime requests) (empty_assignments vehicles))"
    using assms(4) by (simp add: fallback_vehicles_def)
  have start: "length (load (empty_assignments vehicles) (vehicleId v)) \<le> capacity_of v"
    by (simp add: load_empty_assignments)
  from assign_loop_capacity[OF run same nf start] n show ?thesis by simp
qed

lemma decide_Fallback_iff:
  "(\<exists>k. decide cost tbl vs mw mt a r = Fallback k) \<longleftrightarrow>
     vs \<noteq> [] \<and> origin_resolves tbl r \<and>
     (\<forall>w \<in> set vs. \<not> feasible mw mt a r w \<or> cost r w (load a (vehicleId w)) = None)"
proof (cases vs)
  case Nil
  then show ?thesis by (auto simp: decide_def split: option.splits)
next
  case (Cons w ws)
  then obtain l where "least_loaded a vs = Some l" by auto
  then show ?thesis
    using choose_loop_None_iff[of cost mw mt a r vs] Cons
    by (auto simp: decide_def origin_resolves_def split: option.splits)
qed

lemma ex_stops_coords:
  "get_stop_coords ex_stops ''A'' = Some (1, 1)"
  "get_stop_coords ex_stops ''B'' = Some (2, 2)"
  "get_stop_coords ex_stops ''Q'' = None"
  "get_stop_coords ex_stops ''Z'' = None"
  by (simp_all add: get_stop_coords_def ex_stops_def)

lemma ex_request_simps:
  "originStopId (ex_request i orig dest) = orig"
  "destStopId (ex_request i orig dest) = dest"
  "pickup_of (ex_request i orig dest) = None"
  by (simp_all add: ex_request_def pickup_of_def)

lemma ex_vehicle_simps:
  "vehicleId ex_v1 = ''v1''" "vehicleId ex_v2 = ''v2''"
  "capacity_of ex_v1 = 1" "capacity_of ex_v2 = 20"
  by (simp_all add: ex_v1_def ex_v2_def capacity_of_def)

lemma ex_cost_unresolved:
  "calculate_assignment_cost ex_stops (ex_request i ''A'' ''Z'') v cur = None"
  by (simp add: calculate_assignment_cost_def ex_request_simps ex_stops_coords)

lemma ex_cost_same:
  "calculate_assignment_cost ex_stops (ex_request i ''A'' ''B'') ex_v2 []
   = calculate_assignment_cost ex_stops (ex_request i ''A'' ''B'') ex_v1 []"
  "calculate_assignment_cost ex_stops (ex_request i ''A'' ''B'') ex_v1 [] \<noteq> None"
  by (simp_all add: calculate_assignment_cost_def ex_request_simps ex_stops_coords
      ex_v1_def ex_v2_def calculate_route_efficiency_penalty_def
      calculate_time_clustering_bonus_def calculate_geo_clustering_bonus_def)

lemma ex_cost_finite:
  "\<exists>c. calculate_assignment_cost ex_stops (ex_request i ''A'' ''B'') v cur = Some c"
  by (simp add: calculate_assignment_cost_def ex_request_simps ex_stops_coords)

lemma cost_less_simps:
  "cost_less c c = False" "cost_less None m = False"
  by (cases c; simp add: cost_less_def)+

lemma ex_cost_less_inf:
  "cost_less (calculate_assignment_cost ex_stops (ex_request i ''A'' ''B'') v cur) None"
  using ex_cost_finite[of i v cur] by (auto simp: cost_less_def)

lemmas engine_eval = assigned_count_def assign_requests_to_vehicles_def empty_assignments_def
      fallback_vehicles_def infeasible_vehicles_def feasible_def
      decide_def Let_def load_def append_to_def cost_less_simps
      violates_waiting_time_def violates_travel_duration_def
      get_pickup_datetime_def ex_request_simps ex_vehicle_simps ex_stops_coords

text \<open>Claim C1 on a fleet of two vehicles and two requests, one of them with an origin
  that is not in the stop table.\<close>

theorem C1_total_coverage_witness:
  "[ex_v1, ex_v2] \<noteq> []
   \<and> (\<exists>a. assign_requests_to_vehicles (calculate_assignment_cost ex_stops) ex_stops
            [ex_request ''r1'' ''A'' ''B'', ex_request ''r2'' ''Q'' ''B''] [ex_v1, ex_v2] 15 20 = Inr a
        \<and> dom a = {''v1'', ''v2''}
        \<and> all_assigned a = {#ex_request ''r1'' ''A'' ''B''#})"
proof -
  have h: "[ex_v1, ex_v2] \<noteq> []" by simp
  from C1_total_coverage[OF h, of "calculate_assignment_cost ex_stops" ex_stops
      "[ex_request ''r1'' ''A'' ''B'', ex_request ''r2'' ''Q'' ''B'']" 15 20]
  obtain a where a:
    "assign_requests_to_vehicles (calculate_assignment_cost ex_stops) ex_stops
       [ex_request ''r1'' ''A'' ''B'', ex_request ''r2'' ''Q'' ''B''] [ex_v1, ex_v2] 15 20 = Inr a"
    "dom a = set (map vehicleId [ex_v1, ex_v2])"
    "all_assigned a = mset (filter (origin_resolves ex_stops)
       [ex_request ''r1'' ''A'' ''B'', ex_request ''r2'' ''Q'' ''B''])"
    by blast
  have "dom a = {''v1'', ''v2''}" using a(2) by (simp add: ex_vehicle_simps)
  moreover have "all_assigned a = {#ex_request ''r1'' ''A'' ''B''#}"
    using a(3) by (simp add: origin_resolves_def ex_request_simps ex_stops_coords)
  ultimately show ?thesis using h a(1) by blast
qed

text \<open>Claim C3 (amended) on a run without fallback: the first vehicle has capacity 1
  and takes the first request, the second request goes to the second vehicle.\<close>

theorem C3_capacity_unless_fallback_witness:
  "assigned_count (assign_requests_to_vehicles (calculate_assignment_cost ex_stops) ex_stops
      [ex_request ''r1'' ''A'' ''B'', ex_request ''r2'' ''A'' ''B''] [ex_v1, ex_v2] 15 20)
      (vehicleId ex_v1) = Some 1
   \<and> ex_v1 \<in> set [ex_v1, ex_v2]
   \<and> distinct (map vehicleId [ex_v1, ex_v2])
   \<and> vehicleId ex_v1 \<notin> set (fallback_vehicles (calculate_assignment_cost ex_stops) ex_stops
        [ex_request ''r1'' ''A'' ''B'', ex_request ''r2'' ''A'' ''B''] [ex_v1, ex_v2] 15 20)
   \<and> (1::nat) \<le> capacity_of ex_v1"
proof -
  have h1: "assigned_count (assign_requests_to_vehicles (calculate_assignment_cost ex_stops) ex_stops
      [ex_request ''r1'' ''A'' ''B'', ex_request ''r2'' ''A'' ''B''] [ex_v1, ex_v2] 15 20)
      (vehicleId ex_v1) = Some 1"
    by (simp add: engine_eval ex_cost_same ex_cost_less_inf)
  have h2: "ex_v1 \<in> set [ex_v1, ex_v2]" by simp
  have h3: "distinct (map vehicleId [ex_v1, ex_v2])" by (simp add: ex_vehicle_simps)
  have h4: "vehicleId ex_v1 \<notin> set (fallback_vehicles (calculate_assignment_cost ex_stops) ex_stops
        [ex_request ''r1'' ''A'' ''B'', ex_request ''r2'' ''A'' ''B''] [ex_v1, ex_v2] 15 20)"
    by (simp add: engine_eval ex_cost_same ex_cost_less_inf)
  from h1 h2 h3 h4 C3_capacity_unless_fallback[OF h1 h2 h3 h4] show ?thesis by blast
qed

text \<open>
  Claim C3 as the specification words it reads "force-assigned" as "no vehicle was
  feasible at decision time". Three requests from stop A to a stop that is not in the table
  have a cost of infinity on every vehicle, so each goes through the fallback branch to the
  least loaded vehicle, although a feasible vehicle exists each time: the first vehicle, of
  capacity 1, ends with two requests, and no request was placed while no vehicle was
  feasible.
\<close>

theorem C3_feasible_reading_counterexample:
  "assigned_count (assign_requests_to_vehicles (calculate_assignment_cost ex_stops) ex_stops
      [ex_request ''r1'' ''A'' ''Z'', ex_request ''r2'' ''A'' ''Z'', ex_request ''r3'' ''A'' ''Z'']
      [ex_v1, ex_v2] 15 20) (vehicleId ex_v1) = Some 2
   \<and> capacity_of ex_v1 = 1
   \<and> infeasible_vehicles (calculate_assignment_cost ex_stops) ex_stops
      [ex_request ''r1'' ''A'' ''Z'', ex_request ''r2'' ''A'' ''Z'', ex_request ''r3'' ''A'' ''Z'']
      [ex_v1, ex_v2] 15 20 = []
   \<and> fallback_vehicles (calculate_assignment_cost ex_stops) ex_stops
      [ex_request ''r1'' ''A'' ''Z'', ex_request ''r2'' ''A'' ''Z'', ex_request ''r3'' ''A'' ''Z'']
      [ex_v1, ex_v2] 15 20 = [''v1'', ''v2'', ''v1'']"
  by (simp add: engine_eval ex_cost_unresolved)


section \<open>The time filter\<close>











section \<open>Sorting by pickup instant\<close>

lemma py_insort_times:
  assumes "\<forall>y\<in>set (x # ys). key y = KTime (f y)"
  shows "py_insort key x ys = Inr (insort_key f x ys)"
  using assms
proof (induction ys)
  case Nil
  show ?case by simp
next
  case (Cons y ys)
  then have IH: "py_insort key x ys = Inr (insort_key f x ys)" by simp
  from Cons.prems have k: "key x = KTime (f x)" "key y = KTime (f y)" by simp_all
  show ?case
  proof (cases "f y < f x")
    case True
    then have "\<not> f x \<le> f y" by (simp add: not_le)
    with True k IH show ?thesis by simp
  next
    case False
    then have "f x \<le> f y" by (simp add: not_less)
    with False k show ?thesis by simp
  qed
qed

lemma py_sorted_times:
  assumes "\<forall>y\<in>set xs. key y = KTime (f y)"
  shows "py_sorted key xs = Inr (sort_key f xs)"
  using assms
proof (induction xs)
  case Nil
  show ?case by simp
next
  case (Cons x xs)
  then have "py_sorted key xs = Inr (sort_key f xs)" by simp
  moreover have "py_insort key x (sort_key f xs) = Inr (insort_key f x (sort_key f xs))"
    using Cons.prems by (intro py_insort_times) auto
  ultimately show ?case by (simp add: sort_key_def)
qed

lemma py_insort_strings:
  assumes "\<forall>y\<in>set (x # ys). key y = KStr (f y)"
  shows "py_insort key x ys = Inr (insort_key f x ys)"
  using assms
proof (induction ys)
  case Nil
  show ?case by simp
next
  case (Cons y ys)
  then have IH: "py_insort key x ys = Inr (insort_key f x ys)" by simp
  from Cons.prems have k: "key x = KStr (f x)" "key y = KStr (f y)" by simp_all
  show ?case
  proof (cases "f y < f x")
    case True
    then have "\<not> f x \<le> f y" by (simp add: not_le)
    with True k IH show ?thesis by simp
  next
    case False
    then have "f x \<le> f y" by (simp add: not_less)
    with False k show ?thesis by simp
  qed
qed

lemma py_sorted_strings:
  assumes "\<forall>y\<in>set xs. key y = KStr (f y)"
  shows "py_sorted key xs = Inr (sort_key f xs)"
  using assms
proof (induction xs)
  case Nil
  show ?case by simp
next
  case (Cons x xs)
  then have "py_sorted key xs = Inr (sort_key f xs)" by simp
  moreover have "py_insort key x (sort_key f xs) = Inr (insort_key f x (sort_key f xs))"
    using Cons.prems by (intro py_insort_strings) auto
  ultimately show ?case by (simp add: sort_key_def)
qed

lemma py_lt_ok:
  "py_lt a b = Inr r \<Longrightarrow> (\<exists>s t. a = KStr s \<and> b = KStr t) \<or> (\<exists>s t. a = KTime s \<and> b = KTime t)"
  by (cases "(a, b)" rule: py_lt.cases) auto

lemma py_insort_set: "py_insort key x ys = Inr zs \<Longrightarrow> set zs = insert x (set ys)"
proof (induction ys arbitrary: zs)
  case Nil
  then show ?case by auto
next
  case (Cons y ys)
  show ?case
  proof (cases "py_lt (key y) (key x)")
    case (Inl e)
    with Cons.prems show ?thesis by simp
  next
    case (Inr b)
    show ?thesis
    proof (cases b)
      case True
      with Inr Cons.prems obtain zs' where zs': "py_insort key x ys = Inr zs'" "zs = y # zs'"
        by (cases "py_insort key x ys") auto
      from Cons.IH[OF zs'(1)] zs'(2) show ?thesis by auto
    next
      case False
      with Inr Cons.prems show ?thesis by auto
    qed
  qed
qed

lemma py_insort_first:
  assumes "py_insort key x (y # ys) = Inr zs"
  shows "uniform key [x, y]"
proof (cases "py_lt (key y) (key x)")
  case (Inl e)
  with assms show ?thesis by simp
next
  case (Inr b)
  from py_lt_ok[OF this] show ?thesis by (auto simp: uniform_def)
qed

lemma py_sorted_set: "py_sorted key xs = Inr ys \<Longrightarrow> set ys = set xs"
proof (induction xs arbitrary: ys)
  case Nil
  then show ?case by simp
next
  case (Cons x xs)
  from Cons.prems obtain ys' where ys': "py_sorted key xs = Inr ys'"
    and ins: "py_insort key x ys' = Inr ys"
    by (cases "py_sorted key xs") auto
  from Cons.IH[OF ys'] py_insort_set[OF ins] show ?case by simp
qed

lemma uniform_sorted:
  assumes "uniform key xs"
  shows "\<exists>ys. py_sorted key xs = Inr ys"
proof -
  from assms consider "\<forall>x\<in>set xs. \<exists>s. key x = KStr s" | "\<forall>x\<in>set xs. \<exists>t. key x = KTime t"
    by (auto simp: uniform_def)
  then show ?thesis
  proof cases
    case 1
    then have "\<forall>y\<in>set xs. key y = KStr (case key y of KStr s \<Rightarrow> s | _ \<Rightarrow> [])" by auto
    from py_sorted_strings[of xs key, OF this] show ?thesis by blast
  next
    case 2
    then have "\<forall>y\<in>set xs. key y = KTime (case key y of KTime t \<Rightarrow> t | _ \<Rightarrow> 0)" by auto
    from py_sorted_times[of xs key, OF this] show ?thesis by blast
  qed
qed

lemma uniform_Cons:
  assumes "uniform key [x, y]" "y \<in> set xs" "uniform key xs"
  shows "uniform key (x # xs)"
proof -
  from assms(1) consider s t where "key x = KStr s" "key y = KStr t"
    | s t where "key x = KTime s" "key y = KTime t"
    unfolding uniform_def by auto
  then show ?thesis
  proof cases
    case 1
    with assms(2,3) have "\<forall>z\<in>set xs. \<exists>s. key z = KStr s"
      unfolding uniform_def by (metis pykey.distinct(5))
    with 1 show ?thesis unfolding uniform_def by simp
  next
    case 2
    with assms(2,3) have "\<forall>z\<in>set xs. \<exists>t. key z = KTime t"
      unfolding uniform_def by (metis pykey.distinct(5))
    with 2 show ?thesis unfolding uniform_def by simp
  qed
qed

lemma sorted_uniform:
  assumes "py_sorted key xs = Inr ys"
  shows "length xs \<le> 1 \<or> uniform key xs"
  using assms
proof (induction xs arbitrary: ys)
  case Nil
  show ?case by simp
next
  case (Cons x xs)
  from Cons.prems obtain ys' where ys': "py_sorted key xs = Inr ys'"
    and ins: "py_insort key x ys' = Inr ys"
    by (cases "py_sorted key xs") auto
  have IH: "length xs \<le> 1 \<or> uniform key xs" using ys' by (rule Cons.IH)
  show ?case
  proof (cases "xs = []")
    case True
    then show ?thesis by simp
  next
    case False
    with py_sorted_set[OF ys'] have "ys' \<noteq> []" by auto
    then obtain y ys'' where y: "ys' = y # ys''" by (cases ys') auto
    with py_sorted_set[OF ys'] have yin: "y \<in> set xs" by auto
    from ins y have "py_insort key x (y # ys'') = Inr ys" by simp
    then have xy: "uniform key [x, y]" by (rule py_insort_first)
    have "uniform key xs"
    proof (cases "length xs \<le> 1")
      case True
      with False yin have "xs = [y]" by (cases xs) auto
      with xy show ?thesis by (simp add: uniform_def; blast)
    next
      case False
      with IH show ?thesis by simp
    qed
    with xy yin have "uniform key (x # xs)" by (rule uniform_Cons)
    then show ?thesis by simp
  qed
qed

lemma py_sorted_ok_iff:
  "(\<exists>ys. py_sorted key xs = Inr ys) \<longleftrightarrow> length xs \<le> 1 \<or> uniform key xs"
proof
  assume "\<exists>ys. py_sorted key xs = Inr ys"
  then show "length xs \<le> 1 \<or> uniform key xs" using sorted_uniform by blast
next
  assume "length xs \<le> 1 \<or> uniform key xs"
  then show "\<exists>ys. py_sorted key xs = Inr ys"
  proof
    assume "length xs \<le> 1"
    then consider "xs = []" | x where "xs = [x]"
      by (cases xs; cases "tl xs") auto
    then show ?thesis by cases auto
  next
    assume "uniform key xs"
    then show ?thesis by (rule uniform_sorted)
  qed
qed

text \<open>
  Claim C6 says that the sequencing functions sort a list in which some requests have a
  missing pickup instant and others a known one, with the missing ones first, and return
  normally. The sort key \<^verbatim>\<open>r.get('requestedPickupAt', '')\<close> is \<^verbatim>\<open>None\<close> for a null instant and
  \<^verbatim>\<open>''\<close> for an absent one, neither of which Python compares with a \<^verbatim>\<open>datetime\<close>, nor
  \<^verbatim>\<open>None\<close> with a string: on such lists \<^verbatim>\<open>_calculate_route_locally\<close> and
  \<^verbatim>\<open>RouteCalculator.optimize_route\<close> raise \<^verbatim>\<open>TypeError\<close>, for every provider and stop table.
\<close>

theorem C6_mixed_pickup_instants_raise:
  "calculate_route_locally p tbl vid
     [\<lparr>requestId = Some ''r1'', originStopId = ''A'', destStopId = ''B'', requestedPickupAt = Null\<rparr>,
      \<lparr>requestId = Some ''r2'', originStopId = ''B'', destStopId = ''A'', requestedPickupAt = Val 1758441600\<rparr>]
     = Inl TypeError
   \<and> calculate_route_locally p tbl vid
     [\<lparr>requestId = Some ''r1'', originStopId = ''A'', destStopId = ''B'', requestedPickupAt = Absent\<rparr>,
      \<lparr>requestId = Some ''r2'', originStopId = ''B'', destStopId = ''A'', requestedPickupAt = Val 1758441600\<rparr>]
     = Inl TypeError
   \<and> optimize_route p tbl vid
     [\<lparr>requestId = Some ''r1'', originStopId = ''A'', destStopId = ''B'', requestedPickupAt = Null\<rparr>,
      \<lparr>requestId = Some ''r2'', originStopId = ''B'', destStopId = ''A'',
       requestedPickupAt = Val ''2025-09-21 08:00:00''\<rparr>]
     = Inl TypeError"
  by (simp add: calculate_route_locally_def optimize_route_def local_key_def remote_key_def)

section \<open>The stop sequence and the Route Result\<close>

lemma add_pickups_inv:
  assumes "add_pickups gc i reqs (st, po) = (st', po')"
    and "\<forall>e\<in>set st. ev_type e = Pickup
           \<and> (\<exists>j. po (ev_requestId e) = Some j \<and> ev_priority e \<le> j)"
    and "\<forall>k j. po k = Some j \<longrightarrow> j < i"
  shows "\<forall>e\<in>set st'. ev_type e = Pickup
           \<and> (\<exists>j. po' (ev_requestId e) = Some j \<and> ev_priority e \<le> j)"
  using assms
proof (induction reqs arbitrary: i st po)
  case Nil
  then show ?case by simp
next
  case (Cons req rest)
  show ?case
  proof (cases "gc (originStopId req)")
    case None
    with Cons.prems(1) have run: "add_pickups gc (Suc i) rest (st, po) = (st', po')" by simp
    from Cons.prems(3) have "\<forall>k j. po k = Some j \<longrightarrow> j < Suc i" by (simp add: less_Suc_eq)
    from Cons.IH[OF run Cons.prems(2) this] show ?thesis .
  next
    case (Some origin)
    let ?e = "\<lparr>ev_type = Pickup, ev_requestId = requestId req,
               ev_stopId = originStopId req, ev_coords = origin, ev_priority = i\<rparr>"
    let ?po = "po(requestId req \<mapsto> i)"
    from Some Cons.prems(1) have run: "add_pickups gc (Suc i) rest (st @ [?e], ?po) = (st', po')"
      by simp
    have inv1: "\<forall>e\<in>set (st @ [?e]). ev_type e = Pickup
           \<and> (\<exists>j. ?po (ev_requestId e) = Some j \<and> ev_priority e \<le> j)"
    proof
      fix e assume "e \<in> set (st @ [?e])"
      then consider "e = ?e" | "e \<in> set st" by auto
      then show "ev_type e = Pickup \<and> (\<exists>j. ?po (ev_requestId e) = Some j \<and> ev_priority e \<le> j)"
      proof cases
        case 1
        then show ?thesis by simp
      next
        case 2
        with Cons.prems(2) obtain j where j: "ev_type e = Pickup"
          "po (ev_requestId e) = Some j" "ev_priority e \<le> j" by blast
        with Cons.prems(3) have "j < i" by blast
        with j show ?thesis by (cases "ev_requestId e = requestId req") auto
      qed
    qed
    have inv2: "\<forall>k j. ?po k = Some j \<longrightarrow> j < Suc i"
      using Cons.prems(3) by (auto simp: less_Suc_eq)
    from Cons.IH[OF run inv1 inv2] show ?thesis .
  qed
qed

lemma add_dropoffs_set:
  "e \<in> set (add_dropoffs gc po reqs st) \<Longrightarrow>
     e \<in> set st \<or> (ev_type e = Dropoff
       \<and> ev_priority e = (case po (ev_requestId e) of None \<Rightarrow> 999 | Some i \<Rightarrow> i) + 100)"
proof (induction reqs arbitrary: st)
  case Nil
  then show ?case by simp
next
  case (Cons req rest)
  show ?case
  proof (cases "gc (destStopId req)")
    case None
    with Cons.prems have "e \<in> set (add_dropoffs gc po rest st)" by simp
    from Cons.IH[OF this] show ?thesis .
  next
    case (Some dest)
    let ?d = "\<lparr>ev_type = Dropoff, ev_requestId = requestId req,
               ev_stopId = destStopId req, ev_coords = dest,
               ev_priority = (case po (requestId req) of None \<Rightarrow> 999 | Some i \<Rightarrow> i) + 100\<rparr>"
    from Some Cons.prems have "e \<in> set (add_dropoffs gc po rest (st @ [?d]))" by simp
    from Cons.IH[OF this] show ?thesis by auto
  qed
qed

lemma pickup_before_dropoff_priority:
  assumes "add_pickups gc 0 reqs ([], Map.empty) = (st, po)"
    and "p \<in> set (add_dropoffs gc po reqs st)" "d \<in> set (add_dropoffs gc po reqs st)"
    and "ev_type p = Pickup" "ev_type d = Dropoff" "ev_requestId p = ev_requestId d"
  shows "ev_priority p < ev_priority d"
proof -
  have inv: "\<forall>e\<in>set st. ev_type e = Pickup
           \<and> (\<exists>j. po (ev_requestId e) = Some j \<and> ev_priority e \<le> j)"
    by (rule add_pickups_inv[OF assms(1)]) simp_all
  from add_dropoffs_set[OF assms(2)] assms(4) have "p \<in> set st" by auto
  with inv obtain j where j: "po (ev_requestId p) = Some j" "ev_priority p \<le> j" by blast
  from add_dropoffs_set[OF assms(3)] inv assms(5)
  have "ev_priority d = (case po (ev_requestId d) of None \<Rightarrow> 999 | Some i \<Rightarrow> i) + 100"
    by auto
  with j assms(6) show ?thesis by simp
qed

lemma precedence_sequence_stops: "precedence (sequence_stops gc reqs)"
proof -
  obtain st po where sp: "add_pickups gc 0 reqs ([], Map.empty) = (st, po)"
    by (cases "add_pickups gc 0 reqs ([], Map.empty)") auto
  let ?all = "add_dropoffs gc po reqs st"
  let ?ss = "sort_key ev_priority ?all"
  have ss: "sequence_stops gc reqs = ?ss" by (simp add: sequence_stops_def sp)
  have srt: "sorted (map ev_priority ?ss)" by (rule sorted_sort_key)
  have "p < q" if pq: "p < length ?ss" "q < length ?ss" "ev_type (?ss ! p) = Pickup"
      "ev_type (?ss ! q) = Dropoff" "ev_requestId (?ss ! p) = ev_requestId (?ss ! q)" for p q
  proof (rule ccontr)
    assume "\<not> p < q"
    then have "q \<le> p" by simp
    with srt pq(1) have "map ev_priority ?ss ! q \<le> map ev_priority ?ss ! p"
      by (intro sorted_nth_mono) simp_all
    with pq(1,2) have le: "ev_priority (?ss ! q) \<le> ev_priority (?ss ! p)" by simp
    have "?ss ! p \<in> set ?all" "?ss ! q \<in> set ?all" using pq(1,2)
      by (metis nth_mem set_sort)+
    from pickup_before_dropoff_priority[OF sp this pq(3,4,5)] le show False by simp
  qed
  then show ?thesis unfolding ss precedence_def by blast
qed

lemma precedence_take: "precedence ss \<Longrightarrow> precedence (take n ss)"
  by (simp add: precedence_def)

lemma limit_and_route_fields:
  "waypoints_of (limit_and_route p (map ev_coords all_stops) all_stops)
     = take 23 (map ev_coords all_stops)"
  "sequence_of (limit_and_route p (map ev_coords all_stops) all_stops)
     = take 23 all_stops"
  by (auto simp: limit_and_route_def waypoints_of_def sequence_of_def Let_def split: option.splits)

lemma limit_and_route_degraded:
  assumes "p (hd (take 23 ws)) (last (take 23 ws))
             (if length (take 23 ws) > 2 then butlast (tl (take 23 ws)) else []) = None"
    and "length ws = length all_stops"
  shows "limit_and_route p ws all_stops =
     \<lparr>res_route = [], res_distance = 0, res_duration = 0,
      res_waypoints = Some (take 23 ws), res_sequence = Some (take 23 all_stops)\<rparr>"
proof (cases "length ws > 23")
  case True
  with assms show ?thesis by (simp add: limit_and_route_def)
next
  case False
  with assms(2) have t: "take 23 ws = ws" "take 23 all_stops = all_stops" by simp_all
  from assms(1) have "p (hd ws) (last ws) (if length ws > 2 then butlast (tl ws) else []) = None"
    unfolding t .
  with False t show ?thesis by (simp add: limit_and_route_def)
qed

lemma local_result:
  assumes "calculate_route_locally p tbl vid reqs = Inr res"
  shows "\<exists>srt. py_sorted local_key reqs = Inr srt
     \<and> waypoints_of res = take 23 (map ev_coords (sequence_stops (get_stop_coords tbl) srt))
     \<and> sequence_of res = take 23 (sequence_stops (get_stop_coords tbl) srt)"
proof (cases "reqs = []")
  case True
  with assms show ?thesis
    by (auto simp: calculate_route_locally_def sequence_stops_def waypoints_of_def sequence_of_def)
next
  case False
  with assms obtain srt where srt: "py_sorted local_key reqs = Inr srt"
    by (cases "py_sorted local_key reqs") (auto simp: calculate_route_locally_def)
  let ?all = "sequence_stops (get_stop_coords tbl) srt"
  show ?thesis
  proof (cases "length ?all < 2")
    case True
    with assms False srt have "res = \<lparr>res_route = [], res_distance = 0, res_duration = 0,
        res_waypoints = Some (map ev_coords ?all), res_sequence = Some ?all\<rparr>"
      by (simp add: calculate_route_locally_def Let_def)
    with True srt show ?thesis by (simp add: waypoints_of_def sequence_of_def)
  next
    case f: False
    with assms False srt have "res = limit_and_route p (map ev_coords ?all) ?all"
      by (simp add: calculate_route_locally_def Let_def)
    with srt show ?thesis by (simp add: limit_and_route_fields)
  qed
qed

lemma remote_result:
  assumes "optimize_route p tbl vid reqs = Inr res"
  shows "(waypoints_of res = [] \<and> sequence_of res = [])
     \<or> (\<exists>srt. py_sorted remote_key reqs = Inr srt
     \<and> waypoints_of res = take 23 (map ev_coords (sequence_stops (rc_get_stop_coords tbl) srt))
     \<and> sequence_of res = take 23 (sequence_stops (rc_get_stop_coords tbl) srt))"
proof (cases "reqs = []")
  case True
  with assms show ?thesis by (auto simp: optimize_route_def waypoints_of_def sequence_of_def)
next
  case False
  with assms obtain srt where srt: "py_sorted remote_key reqs = Inr srt"
    by (cases "py_sorted remote_key reqs") (auto simp: optimize_route_def)
  let ?all = "sequence_stops (rc_get_stop_coords tbl) srt"
  show ?thesis
  proof (cases "length ?all < 2")
    case True
    with assms False srt have "res = \<lparr>res_route = [], res_distance = 0, res_duration = 0,
        res_waypoints = None, res_sequence = None\<rparr>"
      by (simp add: optimize_route_def Let_def)
    then show ?thesis by (simp add: waypoints_of_def sequence_of_def)
  next
    case f: False
    with assms False srt have "res = limit_and_route p (map ev_coords ?all) ?all"
      by (simp add: optimize_route_def Let_def)
    with srt show ?thesis by (simp add: limit_and_route_fields)
  qed
qed

lemma remote_result_long:
  assumes "optimize_route p tbl vid reqs = Inr res" "py_sorted remote_key reqs = Inr srt"
    and "2 \<le> length (sequence_stops (rc_get_stop_coords tbl) srt)"
  shows "waypoints_of res = take 23 (map ev_coords (sequence_stops (rc_get_stop_coords tbl) srt))
     \<and> sequence_of res = take 23 (sequence_stops (rc_get_stop_coords tbl) srt)"
proof -
  have "reqs \<noteq> []" using assms(2,3) by (auto simp: sequence_stops_def)
  with assms have "res = limit_and_route p
      (map ev_coords (sequence_stops (rc_get_stop_coords tbl) srt))
      (sequence_stops (rc_get_stop_coords tbl) srt)"
    by (simp add: optimize_route_def Let_def)
  then show ?thesis by (simp add: limit_and_route_fields)
qed

lemma precedence_Nil: "precedence []"
  by (simp add: precedence_def)

text \<open>
  Claim C2. In every result of \<^verbatim>\<open>_calculate_route_locally\<close> and of
  \<^verbatim>\<open>RouteCalculator.optimize_route\<close>, a pickup Stop Event stands at a strictly smaller
  position of the stop sequence than a dropoff Stop Event of the same request.
\<close>

theorem C2_pickup_before_dropoff:
  "(calculate_route_locally p tbl vid reqs = Inr res \<longrightarrow> precedence (sequence_of res))
   \<and> (optimize_route p' tbl' vid' reqs' = Inr res' \<longrightarrow> precedence (sequence_of res'))"
proof (intro conjI impI)
  assume "calculate_route_locally p tbl vid reqs = Inr res"
  from local_result[OF this] obtain srt :: "instant request list" where
    "sequence_of res = take 23 (sequence_stops (get_stop_coords tbl) srt)" by blast
  then show "precedence (sequence_of res)"
    by (simp add: precedence_take precedence_sequence_stops)
next
  assume "optimize_route p' tbl' vid' reqs' = Inr res'"
  from remote_result[OF this] consider "sequence_of res' = []"
    | srt :: "string request list" where
      "sequence_of res' = take 23 (sequence_stops (rc_get_stop_coords tbl') srt)" by blast
  then show "precedence (sequence_of res')"
    by cases (simp_all add: precedence_take precedence_sequence_stops precedence_Nil)
qed

text \<open>
  Claim C8. Every result of the two sequencing functions has at most 23 waypoints; when the
  stop sequence before the cap has more than 23 entries, the waypoint list and the stop
  sequence of the result are the first 23 entries of the lists before the cap, in their
  order, and both have exactly 23 entries.
\<close>

theorem C8_waypoint_cap:
  "(calculate_route_locally p tbl vid reqs = Inr res \<longrightarrow> py_sorted local_key reqs = Inr srt
       \<longrightarrow> capped res (sequence_stops (get_stop_coords tbl) srt))
   \<and> (optimize_route p' tbl' vid' reqs' = Inr res' \<longrightarrow> py_sorted remote_key reqs' = Inr srt'
       \<longrightarrow> capped res' (sequence_stops (rc_get_stop_coords tbl') srt'))"
proof (intro conjI impI)
  assume a: "calculate_route_locally p tbl vid reqs = Inr res" "py_sorted local_key reqs = Inr srt"
  from local_result[OF a(1)] a(2) show "capped res (sequence_stops (get_stop_coords tbl) srt)"
    by (auto simp: capped_def)
next
  assume a: "optimize_route p' tbl' vid' reqs' = Inr res'" "py_sorted remote_key reqs' = Inr srt'"
  let ?all = "sequence_stops (rc_get_stop_coords tbl') srt'"
  have short: "length (waypoints_of res') \<le> 23"
    using remote_result[OF a(1)] by auto
  have long: "waypoints_of res' = take 23 (map ev_coords ?all)
           \<and> sequence_of res' = take 23 ?all" if "23 < length ?all"
    using remote_result_long[OF a] that by simp
  from short long show "capped res' ?all" by (auto simp: capped_def)
qed

text \<open>
  Claim C10. In every result of the two sequencing functions the waypoint list and the stop
  sequence have the same length, and the waypoint at every index is the coordinate pair of
  the Stop Event at that index.
\<close>

theorem C10_waypoints_aligned:
  "(calculate_route_locally p tbl vid reqs = Inr res \<longrightarrow> aligned res)
   \<and> (optimize_route p' tbl' vid' reqs' = Inr res' \<longrightarrow> aligned res')"
proof (intro conjI impI)
  assume "calculate_route_locally p tbl vid reqs = Inr res"
  from local_result[OF this] show "aligned res" by (auto simp: aligned_def)
next
  assume "optimize_route p' tbl' vid' reqs' = Inr res'"
  from remote_result[OF this] show "aligned res'" by (auto simp: aligned_def)
qed

text \<open>
  Claim C7. When the call of the route-geometry provider fails, \<^verbatim>\<open>_calculate_route_locally\<close>
  returns a Route Result with an empty route, distance 0 and duration 0, whose waypoints
  and stop sequence are the ones computed before the call (the sorted stops, cut to 23
  entries). The call is made when the requests could be sorted and at least two stops
  resolve, with the first waypoint as departure, the last as destination and the ones
  between as via-points.
\<close>

theorem C7_degraded_fallback:
  assumes "py_sorted local_key reqs = Inr srt"
    and "all_stops = sequence_stops (get_stop_coords tbl) srt"
    and "ws = take 23 (map ev_coords all_stops)"
    and "2 \<le> length all_stops"
    and "p (hd ws) (last ws) (if length ws > 2 then butlast (tl ws) else []) = None"
  shows "calculate_route_locally p tbl vid reqs =
     Inr \<lparr>res_route = [], res_distance = 0, res_duration = 0,
          res_waypoints = Some ws, res_sequence = Some (take 23 all_stops)\<rparr>"
proof -
  have ne: "reqs \<noteq> []" using assms(1,2,4) by (auto simp: sequence_stops_def)
  have "calculate_route_locally p tbl vid reqs
      = Inr (limit_and_route p (map ev_coords all_stops) all_stops)"
    using ne assms(1,2,4) by (simp add: calculate_route_locally_def Let_def)
  also have "limit_and_route p (map ev_coords all_stops) all_stops =
     \<lparr>res_route = [], res_distance = 0, res_duration = 0,
      res_waypoints = Some ws, res_sequence = Some (take 23 all_stops)\<rparr>"
    unfolding assms(3)
  proof (rule limit_and_route_degraded)
    show "p (hd (take 23 (map ev_coords all_stops))) (last (take 23 (map ev_coords all_stops)))
       (if 2 < length (take 23 (map ev_coords all_stops))
        then butlast (tl (take 23 (map ev_coords all_stops))) else []) = None"
      using assms(5) unfolding assms(3) .
    show "length (map ev_coords all_stops) = length all_stops" by simp
  qed
  finally show ?thesis .
qed

section \<open>Concrete runs of the sequencing engine\<close>

lemma ex_request_fields:
  "requestId (ex_request i orig dest) = Some i"
  "local_key (ex_request i orig dest) = KStr []"
  by (simp_all add: ex_request_def local_key_def)

lemma ex_remote_request_simps:
  "requestId (ex_remote_request i orig dest s) = Some i"
  "originStopId (ex_remote_request i orig dest s) = orig"
  "destStopId (ex_remote_request i orig dest s) = dest"
  "remote_key (ex_remote_request i orig dest s) = KStr s"
  by (simp_all add: ex_remote_request_def remote_key_def)

lemma ex_remote_coords:
  "rc_get_stop_coords ex_stops ''A'' = Some (1, 1)"
  "rc_get_stop_coords ex_stops ''B'' = Some (2, 2)"
  "rc_get_stop_coords ex_stops ''Q'' = None"
  by (simp_all add: rc_get_stop_coords_def ex_stops_def)

lemma ex_two_sorted:
  "py_sorted local_key [ex_request ''r1'' ''A'' ''B'', ex_request ''r2'' ''B'' ''A'']
     = Inr [ex_request ''r1'' ''A'' ''B'', ex_request ''r2'' ''B'' ''A'']"
  by (simp add: ex_request_fields)

lemma ex_two_stops:
  "sequence_stops (get_stop_coords ex_stops)
      [ex_request ''r1'' ''A'' ''B'', ex_request ''r2'' ''B'' ''A'']
   = [\<lparr>ev_type = Pickup, ev_requestId = Some ''r1'', ev_stopId = ''A'', ev_coords = (1, 1),
        ev_priority = 0\<rparr>,
      \<lparr>ev_type = Pickup, ev_requestId = Some ''r2'', ev_stopId = ''B'', ev_coords = (2, 2),
        ev_priority = 1\<rparr>,
      \<lparr>ev_type = Dropoff, ev_requestId = Some ''r1'', ev_stopId = ''B'', ev_coords = (2, 2),
        ev_priority = 100\<rparr>,
      \<lparr>ev_type = Dropoff, ev_requestId = Some ''r2'', ev_stopId = ''A'', ev_coords = (1, 1),
        ev_priority = 101\<rparr>]"
  by (simp add: sequence_stops_def ex_request_simps ex_request_fields ex_stops_coords)

text \<open>Claim C7 on two requests between the stops A and B: four waypoints, so the provider
  is called with via-points and fails.\<close>

theorem C7_degraded_fallback_witness:
  "py_sorted local_key [ex_request ''r1'' ''A'' ''B'', ex_request ''r2'' ''B'' ''A'']
     = Inr [ex_request ''r1'' ''A'' ''B'', ex_request ''r2'' ''B'' ''A'']
   \<and> ex_provider (1, 1) (1, 1) [(2, 2), (2, 2)] = None
   \<and> calculate_route_locally ex_provider ex_stops ''v1''
       [ex_request ''r1'' ''A'' ''B'', ex_request ''r2'' ''B'' ''A'']
     = Inr \<lparr>res_route = [], res_distance = 0, res_duration = 0,
            res_waypoints = Some [(1, 1), (2, 2), (2, 2), (1, 1)],
            res_sequence = Some (sequence_stops (get_stop_coords ex_stops)
              [ex_request ''r1'' ''A'' ''B'', ex_request ''r2'' ''B'' ''A''])\<rparr>"
proof -
  let ?reqs = "[ex_request ''r1'' ''A'' ''B'', ex_request ''r2'' ''B'' ''A'']"
  let ?all = "sequence_stops (get_stop_coords ex_stops) ?reqs"
  have ws: "take 23 (map ev_coords ?all) = [(1, 1), (2, 2), (2, 2), (1, 1)]"
    by (simp add: ex_two_stops)
  have len: "2 \<le> length ?all" by (simp add: ex_two_stops)
  have all: "take 23 ?all = ?all" by (simp add: ex_two_stops)
  have fails: "ex_provider (1, 1) (1, 1) [(2, 2), (2, 2)] = None"
    by (simp add: ex_provider_def)
  have call: "ex_provider (hd [(1, 1), (2, 2), (2, 2), (1, 1)]) (last [(1, 1), (2, 2), (2, 2), (1, 1)])
      (if length [(1, 1), (2, 2), (2, 2), (1::real, 1::real)] > 2
       then butlast (tl [(1, 1), (2, 2), (2, 2), (1, 1)]) else []) = None"
    by (simp add: ex_provider_def)
  from C7_degraded_fallback[where p = ex_provider and tbl = ex_stops and vid = "''v1''"
      and all_stops = ?all, OF ex_two_sorted refl ws[symmetric] len call]
  show ?thesis using ex_two_sorted fails unfolding all by simp
qed

lemma ex_remote_sorted:
  "py_sorted remote_key [ex_remote_request ''r1'' ''A'' ''B'' ''2025-09-21 09:00:00'',
                         ex_remote_request ''r2'' ''B'' ''A'' ''2025-09-21 08:00:00'']
     = Inr [ex_remote_request ''r2'' ''B'' ''A'' ''2025-09-21 08:00:00'',
            ex_remote_request ''r1'' ''A'' ''B'' ''2025-09-21 09:00:00'']"
  by (simp add: ex_remote_request_simps)

lemma ex_remote_stops:
  "sequence_stops (rc_get_stop_coords ex_stops)
      [ex_remote_request ''r2'' ''B'' ''A'' ''2025-09-21 08:00:00'',
       ex_remote_request ''r1'' ''A'' ''B'' ''2025-09-21 09:00:00'']
   = [\<lparr>ev_type = Pickup, ev_requestId = Some ''r2'', ev_stopId = ''B'', ev_coords = (2, 2),
        ev_priority = 0\<rparr>,
      \<lparr>ev_type = Pickup, ev_requestId = Some ''r1'', ev_stopId = ''A'', ev_coords = (1, 1),
        ev_priority = 1\<rparr>,
      \<lparr>ev_type = Dropoff, ev_requestId = Some ''r2'', ev_stopId = ''A'', ev_coords = (1, 1),
        ev_priority = 100\<rparr>,
      \<lparr>ev_type = Dropoff, ev_requestId = Some ''r1'', ev_stopId = ''B'', ev_coords = (2, 2),
        ev_priority = 101\<rparr>]"
  by (simp add: sequence_stops_def ex_remote_request_simps ex_remote_coords)

lemma ex_two_result:
  "calculate_route_locally ex_provider ex_stops ''v1''
       [ex_request ''r1'' ''A'' ''B'', ex_request ''r2'' ''B'' ''A'']
     = Inr \<lparr>res_route = [], res_distance = 0, res_duration = 0,
            res_waypoints = Some [(1, 1), (2, 2), (2, 2), (1, 1)],
            res_sequence = Some (sequence_stops (get_stop_coords ex_stops)
              [ex_request ''r1'' ''A'' ''B'', ex_request ''r2'' ''B'' ''A''])\<rparr>"
  by (simp add: calculate_route_locally_def ex_two_sorted ex_two_stops limit_and_route_def
      ex_provider_def del: py_sorted.simps)

lemma ex_remote_result:
  "optimize_route ex_provider ex_stops ''v1''
       [ex_remote_request ''r1'' ''A'' ''B'' ''2025-09-21 09:00:00'',
        ex_remote_request ''r2'' ''B'' ''A'' ''2025-09-21 08:00:00'']
     = Inr \<lparr>res_route = [], res_distance = 0, res_duration = 0,
            res_waypoints = Some [(2, 2), (1, 1), (1, 1), (2, 2)],
            res_sequence = Some (sequence_stops (rc_get_stop_coords ex_stops)
              [ex_remote_request ''r2'' ''B'' ''A'' ''2025-09-21 08:00:00'',
               ex_remote_request ''r1'' ''A'' ''B'' ''2025-09-21 09:00:00''])\<rparr>"
  by (simp add: optimize_route_def ex_remote_sorted ex_remote_stops limit_and_route_def
      ex_provider_def del: py_sorted.simps)

text \<open>Claim C2 on a local run of two requests, and on a remote run of two requests that the
  sort by pickup instant exchanges.\<close>

theorem C2_pickup_before_dropoff_witness:
  "calculate_route_locally ex_provider ex_stops ''v1''
       [ex_request ''r1'' ''A'' ''B'', ex_request ''r2'' ''B'' ''A'']
     = Inr \<lparr>res_route = [], res_distance = 0, res_duration = 0,
            res_waypoints = Some [(1, 1), (2, 2), (2, 2), (1, 1)],
            res_sequence = Some (sequence_stops (get_stop_coords ex_stops)
              [ex_request ''r1'' ''A'' ''B'', ex_request ''r2'' ''B'' ''A''])\<rparr>
   \<and> map ev_type (sequence_stops (get_stop_coords ex_stops)
              [ex_request ''r1'' ''A'' ''B'', ex_request ''r2'' ''B'' ''A''])
       = [Pickup, Pickup, Dropoff, Dropoff]
   \<and> precedence (sequence_stops (get_stop_coords ex_stops)
              [ex_request ''r1'' ''A'' ''B'', ex_request ''r2'' ''B'' ''A''])
   \<and> optimize_route ex_provider ex_stops ''v1''
       [ex_remote_request ''r1'' ''A'' ''B'' ''2025-09-21 09:00:00'',
        ex_remote_request ''r2'' ''B'' ''A'' ''2025-09-21 08:00:00'']
     = Inr \<lparr>res_route = [], res_distance = 0, res_duration = 0,
            res_waypoints = Some [(2, 2), (1, 1), (1, 1), (2, 2)],
            res_sequence = Some (sequence_stops (rc_get_stop_coords ex_stops)
              [ex_remote_request ''r2'' ''B'' ''A'' ''2025-09-21 08:00:00'',
               ex_remote_request ''r1'' ''A'' ''B'' ''2025-09-21 09:00:00''])\<rparr>
   \<and> map ev_requestId (sequence_stops (rc_get_stop_coords ex_stops)
              [ex_remote_request ''r2'' ''B'' ''A'' ''2025-09-21 08:00:00'',
               ex_remote_request ''r1'' ''A'' ''B'' ''2025-09-21 09:00:00''])
       = [Some ''r2'', Some ''r1'', Some ''r2'', Some ''r1'']
   \<and> precedence (sequence_stops (rc_get_stop_coords ex_stops)
              [ex_remote_request ''r2'' ''B'' ''A'' ''2025-09-21 08:00:00'',
               ex_remote_request ''r1'' ''A'' ''B'' ''2025-09-21 09:00:00''])"
proof -
  let ?local = "\<lparr>res_route = [], res_distance = 0, res_duration = 0,
            res_waypoints = Some [(1, 1), (2, 2), (2, 2), (1, 1)],
            res_sequence = Some (sequence_stops (get_stop_coords ex_stops)
              [ex_request ''r1'' ''A'' ''B'', ex_request ''r2'' ''B'' ''A''])\<rparr>"
  let ?remote = "\<lparr>res_route = [], res_distance = 0, res_duration = 0,
            res_waypoints = Some [(2, 2), (1, 1), (1, 1), (2, 2)],
            res_sequence = Some (sequence_stops (rc_get_stop_coords ex_stops)
              [ex_remote_request ''r2'' ''B'' ''A'' ''2025-09-21 08:00:00'',
               ex_remote_request ''r1'' ''A'' ''B'' ''2025-09-21 09:00:00''])\<rparr>"
  from C2_pickup_before_dropoff[where p = ex_provider and tbl = ex_stops and vid = "''v1''"
      and reqs = "[ex_request ''r1'' ''A'' ''B'', ex_request ''r2'' ''B'' ''A'']"
      and res = ?local and p' = ex_provider and tbl' = ex_stops and vid' = "''v1''"
      and reqs' = "[ex_remote_request ''r1'' ''A'' ''B'' ''2025-09-21 09:00:00'',
        ex_remote_request ''r2'' ''B'' ''A'' ''2025-09-21 08:00:00'']"
      and res' = ?remote] ex_two_result ex_remote_result
  have "precedence (sequence_stops (get_stop_coords ex_stops)
              [ex_request ''r1'' ''A'' ''B'', ex_request ''r2'' ''B'' ''A''])"
    and "precedence (sequence_stops (rc_get_stop_coords ex_stops)
              [ex_remote_request ''r2'' ''B'' ''A'' ''2025-09-21 08:00:00'',
               ex_remote_request ''r1'' ''A'' ''B'' ''2025-09-21 09:00:00''])"
    by (simp_all add: sequence_of_def)
  moreover have "map ev_type (sequence_stops (get_stop_coords ex_stops)
              [ex_request ''r1'' ''A'' ''B'', ex_request ''r2'' ''B'' ''A''])
       = [Pickup, Pickup, Dropoff, Dropoff]"
    by (simp add: ex_two_stops)
  moreover have "map ev_requestId (sequence_stops (rc_get_stop_coords ex_stops)
              [ex_remote_request ''r2'' ''B'' ''A'' ''2025-09-21 08:00:00'',
               ex_remote_request ''r1'' ''A'' ''B'' ''2025-09-21 09:00:00''])
       = [Some ''r2'', Some ''r1'', Some ''r2'', Some ''r1'']"
    by (simp add: ex_remote_stops)
  ultimately show ?thesis using ex_two_result ex_remote_result by blast
qed

lemma ex_one_result:
  "calculate_route_locally ex_provider ex_stops ''v1'' [ex_request ''r1'' ''A'' ''B'']
     = Inr \<lparr>res_route = [[(1, 1), (2, 2)]], res_distance = 1200, res_duration = 300,
            res_waypoints = Some [(1, 1), (2, 2)],
            res_sequence = Some
              [\<lparr>ev_type = Pickup, ev_requestId = Some ''r1'', ev_stopId = ''A'',
                 ev_coords = (1, 1), ev_priority = 0\<rparr>,
               \<lparr>ev_type = Dropoff, ev_requestId = Some ''r1'', ev_stopId = ''B'',
                 ev_coords = (2, 2), ev_priority = 100\<rparr>]\<rparr>"
  by (simp add: calculate_route_locally_def sequence_stops_def ex_request_simps
      ex_request_fields ex_stops_coords limit_and_route_def ex_provider_def Let_def)

text \<open>Claim C10 on a local run of one request, which the provider answers, and on the remote
  run of two requests.\<close>

theorem C10_waypoints_aligned_witness:
  "calculate_route_locally ex_provider ex_stops ''v1'' [ex_request ''r1'' ''A'' ''B'']
     = Inr \<lparr>res_route = [[(1, 1), (2, 2)]], res_distance = 1200, res_duration = 300,
            res_waypoints = Some [(1, 1), (2, 2)],
            res_sequence = Some
              [\<lparr>ev_type = Pickup, ev_requestId = Some ''r1'', ev_stopId = ''A'',
                 ev_coords = (1, 1), ev_priority = 0\<rparr>,
               \<lparr>ev_type = Dropoff, ev_requestId = Some ''r1'', ev_stopId = ''B'',
                 ev_coords = (2, 2), ev_priority = 100\<rparr>]\<rparr>
   \<and> aligned \<lparr>res_route = [[(1, 1), (2, 2)]], res_distance = 1200, res_duration = 300,
            res_waypoints = Some [(1, 1), (2, 2)],
            res_sequence = Some
              [\<lparr>ev_type = Pickup, ev_requestId = Some ''r1'', ev_stopId = ''A'',
                 ev_coords = (1, 1), ev_priority = 0\<rparr>,
               \<lparr>ev_type = Dropoff, ev_requestId = Some ''r1'', ev_stopId = ''B'',
                 ev_coords = (2, 2), ev_priority = 100\<rparr>]\<rparr>
   \<and> optimize_route ex_provider ex_stops ''v1''
       [ex_remote_request ''r1'' ''A'' ''B'' ''2025-09-21 09:00:00'',
        ex_remote_request ''r2'' ''B'' ''A'' ''2025-09-21 08:00:00'']
     = Inr \<lparr>res_route = [], res_distance = 0, res_duration = 0,
            res_waypoints = Some [(2, 2), (1, 1), (1, 1), (2, 2)],
            res_sequence = Some (sequence_stops (rc_get_stop_coords ex_stops)
              [ex_remote_request ''r2'' ''B'' ''A'' ''2025-09-21 08:00:00'',
               ex_remote_request ''r1'' ''A'' ''B'' ''2025-09-21 09:00:00''])\<rparr>
   \<and> aligned \<lparr>res_route = [], res_distance = 0, res_duration = 0,
            res_waypoints = Some [(2, 2), (1, 1), (1, 1), (2, 2)],
            res_sequence = Some (sequence_stops (rc_get_stop_coords ex_stops)
              [ex_remote_request ''r2'' ''B'' ''A'' ''2025-09-21 08:00:00'',
               ex_remote_request ''r1'' ''A'' ''B'' ''2025-09-21 09:00:00''])\<rparr>"
proof -
  let ?local = "\<lparr>res_route = [[(1, 1), (2, 2)]], res_distance = 1200, res_duration = 300,
            res_waypoints = Some [(1, 1), (2, 2)],
            res_sequence = Some
              [\<lparr>ev_type = Pickup, ev_requestId = Some ''r1'', ev_stopId = ''A'',
                 ev_coords = (1, 1), ev_priority = 0\<rparr>,
               \<lparr>ev_type = Dropoff, ev_requestId = Some ''r1'', ev_stopId = ''B'',
                 ev_coords = (2, 2), ev_priority = 100\<rparr>]\<rparr>"
  let ?remote = "\<lparr>res_route = [], res_distance = 0, res_duration = 0,
            res_waypoints = Some [(2, 2), (1, 1), (1, 1), (2, 2)],
            res_sequence = Some (sequence_stops (rc_get_stop_coords ex_stops)
              [ex_remote_request ''r2'' ''B'' ''A'' ''2025-09-21 08:00:00'',
               ex_remote_request ''r1'' ''A'' ''B'' ''2025-09-21 09:00:00''])\<rparr>"
  from C10_waypoints_aligned[where p = ex_provider and tbl = ex_stops and vid = "''v1''"
      and reqs = "[ex_request ''r1'' ''A'' ''B'']"
      and res = ?local and p' = ex_provider and tbl' = ex_stops and vid' = "''v1''"
      and reqs' = "[ex_remote_request ''r1'' ''A'' ''B'' ''2025-09-21 09:00:00'',
        ex_remote_request ''r2'' ''B'' ''A'' ''2025-09-21 08:00:00'']"
      and res' = ?remote] ex_one_result ex_remote_result
  have "aligned ?local" and "aligned ?remote" by simp_all
  with ex_one_result ex_remote_result show ?thesis by blast
qed

lemma ex_twelve_sorted: "py_sorted local_key ex_twelve = Inr ex_twelve"
  by (simp add: ex_twelve_def ex_request_fields)

lemma ex_twelve_length:
  "length (sequence_stops (get_stop_coords ex_stops) ex_twelve) = 24"
  by (simp add: ex_twelve_def sequence_stops_def ex_request_simps ex_request_fields
      ex_stops_coords)

lemma ex_twelve_result:
  "calculate_route_locally ex_provider ex_stops ''v1'' ex_twelve
     = Inr (limit_and_route ex_provider
         (map ev_coords (sequence_stops (get_stop_coords ex_stops) ex_twelve))
         (sequence_stops (get_stop_coords ex_stops) ex_twelve))"
proof -
  have "ex_twelve \<noteq> []" by (simp add: ex_twelve_def)
  then show ?thesis
    by (simp add: calculate_route_locally_def ex_twelve_sorted ex_twelve_length Let_def)
qed

text \<open>Claim C8 on twelve requests from stop A to stop B: 24 stops before the cap, 23 waypoints
  and 23 Stop Events in the result.\<close>

theorem C8_waypoint_cap_witness:
  "py_sorted local_key ex_twelve = Inr ex_twelve
   \<and> length (sequence_stops (get_stop_coords ex_stops) ex_twelve) = 24
   \<and> (\<exists>res. calculate_route_locally ex_provider ex_stops ''v1'' ex_twelve = Inr res
        \<and> length (waypoints_of res) = 23
        \<and> length (sequence_of res) = 23
        \<and> waypoints_of res
            = take 23 (map ev_coords (sequence_stops (get_stop_coords ex_stops) ex_twelve))
        \<and> sequence_of res = take 23 (sequence_stops (get_stop_coords ex_stops) ex_twelve))"
proof -
  let ?all = "sequence_stops (get_stop_coords ex_stops) ex_twelve"
  let ?res = "limit_and_route ex_provider (map ev_coords ?all) ?all"
  from C8_waypoint_cap[where p = ex_provider and tbl = ex_stops and vid = "''v1''"
      and reqs = ex_twelve and res = ?res and srt = ex_twelve
      and reqs' = "[]" and srt' = "[]"
      and res' = "\<lparr>res_route = [], res_distance = 0, res_duration = 0,
             res_waypoints = None, res_sequence = None\<rparr>"]
    ex_twelve_result ex_twelve_sorted
  have "capped ?res ?all" by blast
  then have "length (waypoints_of ?res) = 23" "length (sequence_of ?res) = 23"
    "waypoints_of ?res = take 23 (map ev_coords ?all)" "sequence_of ?res = take 23 ?all"
    unfolding capped_def by (simp_all add: ex_twelve_length)
  with ex_twelve_result ex_twelve_sorted ex_twelve_length show ?thesis by blast
qed

section \<open>Concrete runs of the time filter\<close>







end
